theory Spec2Isabelle
  imports Complex_Main "HOL-Library.Sublist" "HOL-Library.Multiset"
begin

section \<open>Calendar days\<close>

text \<open>
  A calendar day is a year, a month counted from zero and a day of the month, as the
  getters of a JavaScript \<^verbatim>\<open>Date\<close> return them.
\<close>

record civil =
  civil_year :: int
  civil_month :: int
  civil_date :: int

definition is_leap :: "int \<Rightarrow> bool" where
  "is_leap y = (y mod 4 = 0 \<and> (y mod 100 \<noteq> 0 \<or> y mod 400 = 0))"

definition days_in_month :: "int \<Rightarrow> int \<Rightarrow> int" where
  "days_in_month y m =
     (if m = 1 then (if is_leap y then 29 else 28)
      else if m = 3 \<or> m = 5 \<or> m = 8 \<or> m = 10 then 30 else 31)"

definition day_from_year :: "int \<Rightarrow> int" where
  "day_from_year y =
     365 * (y - 1970) + (y - 1969) div 4 - (y - 1901) div 100 + (y - 1601) div 400"

definition days_before_month :: "int \<Rightarrow> int \<Rightarrow> int" where
  "days_before_month y m =
     (if m \<le> 0 then 0
      else if m = 1 then 31
      else (if is_leap y then 1 else 0) +
        (if m = 2 then 59 else if m = 3 then 90 else if m = 4 then 120
         else if m = 5 then 151 else if m = 6 then 181 else if m = 7 then 212
         else if m = 8 then 243 else if m = 9 then 273 else if m = 10 then 304
         else 334))"

text \<open>
  \<open>make_day\<close> is the day number of a year, a month and a day of the month, none of
  which has to be in range: months beyond December carry into the year and days
  beyond the end of the month count on from its first day.
\<close>

definition make_day :: "int \<Rightarrow> int \<Rightarrow> int \<Rightarrow> int" where
  "make_day y m d =
     (let ym = y + m div 12; mn = m mod 12
      in day_from_year ym + days_before_month ym mn + d - 1)"

definition day_number :: "civil \<Rightarrow> int" where
  "day_number t = make_day (civil_year t) (civil_month t) (civil_date t)"

definition valid_date :: "civil \<Rightarrow> bool" where
  "valid_date t =
     (0 \<le> civil_month t \<and> civil_month t \<le> 11 \<and> 1 \<le> civil_date t \<and>
      civil_date t \<le> days_in_month (civil_year t) (civil_month t))"

text \<open>
  The setters write one field and bring the date back into range, as the
  \<^verbatim>\<open>Date\<close> setters do: \<open>norm_date\<close> carries the month into the year, and the days
  that overflow (or underflow) the month into the neighbouring months.
\<close>

function norm_date :: "int \<Rightarrow> int \<Rightarrow> int \<Rightarrow> civil" where
  "norm_date y m d =
     (let ym = y + m div 12; mn = m mod 12
      in if d > days_in_month ym mn
         then norm_date ym (mn + 1) (d - days_in_month ym mn)
         else if d < 1
         then norm_date (ym + (mn - 1) div 12) ((mn - 1) mod 12)
                (d + days_in_month (ym + (mn - 1) div 12) ((mn - 1) mod 12))
         else \<lparr>civil_year = ym, civil_month = mn, civil_date = d\<rparr>)"
  by pat_completeness auto
termination
proof (relation "measure (\<lambda>(y, m, d). if d < 1 then nat (32 - d) else nat d)")
  show "wf (measure (\<lambda>(y, m, d). if d < 1 then nat (32 - d) else nat d))"
    by simp
next
  fix y m d :: int and ym mn :: int
  assume "d > days_in_month ym mn"
  moreover have "28 \<le> days_in_month ym mn"
    by (simp add: days_in_month_def)
  ultimately show "((ym, mn + 1, d - days_in_month ym mn), y, m, d)
      \<in> measure (\<lambda>(y, m, d). if d < 1 then nat (32 - d) else nat d)"
    by auto
next
  fix y m d :: int and ym mn :: int
  assume "d < 1"
  moreover have "days_in_month (ym + (mn - 1) div 12) ((mn - 1) mod 12) \<le> 31"
    "1 \<le> days_in_month (ym + (mn - 1) div 12) ((mn - 1) mod 12)"
    by (simp_all add: days_in_month_def)
  ultimately show "((ym + (mn - 1) div 12, (mn - 1) mod 12,
        d + days_in_month (ym + (mn - 1) div 12) ((mn - 1) mod 12)), y, m, d)
      \<in> measure (\<lambda>(y, m, d). if d < 1 then nat (32 - d) else nat d)"
    by auto
qed

declare norm_date.simps [simp del]

subsection \<open>Day numbers of neighbouring months\<close>

lemma div_succ:
  fixes a k :: int
  assumes "0 < k"
  shows "(a + 1) div k = a div k + (if (a + 1) mod k = 0 then 1 else 0)"
proof (cases "(a + 1) mod k = 0")
  case True
  define q where "q = (a + 1) div k"
  have "a + 1 = k * q"
    using True by (simp add: q_def mod_eq_0_iff_dvd)
  then have "a = k * (q - 1) + (k - 1)"
    by (simp add: algebra_simps)
  then have "a div k = q - 1"
    using assms int_div_pos_eq [of a k "q - 1" "k - 1"] by simp
  with True show ?thesis by (simp add: q_def)
next
  case False
  define q where "q = (a + 1) div k"
  define r where "r = (a + 1) mod k"
  have "0 \<le> r" "r < k"
    using assms by (simp_all add: r_def)
  with False have r: "0 < r" "r < k"
    by (simp_all add: r_def)
  have "a + 1 = k * q + r"
    by (simp add: q_def r_def)
  then have "a = k * q + (r - 1)"
    by simp
  then have "a div k = q"
    using r int_div_pos_eq [of a k q "r - 1"] by simp
  with False show ?thesis by (simp add: q_def)
qed

lemma mod_shift: "(y - c * k) mod k = y mod k" for y c k :: int
  using mod_mult_self1 [of y "- c" k] by simp

lemma mod_0_coarser: "y mod (c * k) = 0 \<Longrightarrow> y mod k = 0" for y c k :: int
  by (simp add: mod_eq_0_iff_dvd dvd_mult_right)

lemma day_from_year_next:
  "day_from_year (y + 1) = day_from_year y + (if is_leap y then 366 else 365)"
proof -
  have m4: "(y - 1968) mod 4 = y mod 4"
    using mod_shift [of y 492 4] by simp
  have m100: "(y - 1900) mod 100 = y mod 100"
    using mod_shift [of y 19 100] by simp
  have m400: "(y - 1600) mod 400 = y mod 400"
    using mod_shift [of y 4 400] by simp
  have d4: "(y - 1968) div 4 = (y - 1969) div 4 + (if y mod 4 = 0 then 1 else 0)"
    using div_succ [of 4 "y - 1969"] m4 by simp
  have d100: "(y - 1900) div 100 = (y - 1901) div 100 + (if y mod 100 = 0 then 1 else 0)"
    using div_succ [of 100 "y - 1901"] m100 by simp
  have d400: "(y - 1600) div 400 = (y - 1601) div 400 + (if y mod 400 = 0 then 1 else 0)"
    using div_succ [of 400 "y - 1601"] m400 by simp
  have c1: "y mod 400 = 0 \<Longrightarrow> y mod 100 = 0"
    using mod_0_coarser [of y 4 100] by simp
  have c2: "y mod 100 = 0 \<Longrightarrow> y mod 4 = 0"
    using mod_0_coarser [of y 25 4] by simp
  have e: "day_from_year (y + 1) =
      365 * (y - 1969) + (y - 1968) div 4 - (y - 1900) div 100 + (y - 1600) div 400"
    by (simp add: day_from_year_def)
  show ?thesis
  proof (cases "y mod 4 = 0")
    case False
    with c1 c2 have "y mod 100 \<noteq> 0" "y mod 400 \<noteq> 0" "\<not> is_leap y"
      by (auto simp: is_leap_def)
    with False show ?thesis
      unfolding e d4 d100 d400 by (simp add: day_from_year_def)
  next
    case y4: True
    show ?thesis
    proof (cases "y mod 100 = 0")
      case False
      with c1 y4 have "y mod 400 \<noteq> 0" "is_leap y"
        by (auto simp: is_leap_def)
      with False y4 show ?thesis
        unfolding e d4 d100 d400 by (simp add: day_from_year_def)
    next
      case y100: True
      show ?thesis
      proof (cases "y mod 400 = 0")
        case True
        with y4 y100 have "is_leap y" by (simp add: is_leap_def)
        with True y4 y100 show ?thesis
          unfolding e d4 d100 d400 by (simp add: day_from_year_def)
      next
        case False
        with y4 y100 have "\<not> is_leap y" by (simp add: is_leap_def)
        with False y4 y100 show ?thesis
          unfolding e d4 d100 d400 by (simp add: day_from_year_def)
      qed
    qed
  qed
qed

lemma days_in_month_bounds: "28 \<le> days_in_month y m" "days_in_month y m \<le> 31"
  by (simp_all add: days_in_month_def)

lemma days_before_month_next:
  assumes "0 \<le> m" "m \<le> 10"
  shows "days_before_month y (m + 1) = days_before_month y m + days_in_month y m"
proof -
  from assms have "m = 0 \<or> m = 1 \<or> m = 2 \<or> m = 3 \<or> m = 4 \<or> m = 5 \<or> m = 6 \<or> m = 7
      \<or> m = 8 \<or> m = 9 \<or> m = 10"
    by arith
  then show ?thesis
    by (elim disjE) (simp_all add: days_before_month_def days_in_month_def)
qed

lemma days_before_december:
  "days_before_month y 11 + days_in_month y 11 = (if is_leap y then 366 else 365)"
  by (simp add: days_before_month_def days_in_month_def)

lemma make_day_next_month:
  "make_day y (m + 1) d = make_day y m d + days_in_month (y + m div 12) (m mod 12)"
proof (cases "m mod 12 = 11")
  case True
  have "(m + 1) mod 12 = (m mod 12 + 1) mod 12"
    by (simp add: mod_add_left_eq)
  with True have "(m + 1) mod 12 = 0"
    by simp
  then have "(m + 1) div 12 = m div 12 + 1" "(m + 1) mod 12 = 0"
    using div_succ [of 12 m] by simp_all
  with True show ?thesis
    using days_before_december [of "y + m div 12"] day_from_year_next [of "y + m div 12"]
    by (simp add: make_day_def Let_def add.assoc days_before_month_def)
next
  case False
  have "(m + 1) mod 12 = (m mod 12 + 1) mod 12"
    by (simp add: mod_add_left_eq)
  moreover have "0 \<le> m mod 12" "m mod 12 < 12"
    by simp_all
  with False have r: "0 \<le> m mod 12" "m mod 12 \<le> 10"
    by simp_all
  ultimately have m1: "(m + 1) mod 12 = m mod 12 + 1"
    by simp
  then have dm: "(m + 1) div 12 = m div 12"
    using div_succ [of 12 m] r by simp
  show ?thesis
    using days_before_month_next [OF r, of "y + m div 12"]
    by (simp add: make_day_def Let_def dm m1)
qed

lemma make_day_carry: "make_day (y + m div 12) (m mod 12) d = make_day y m d"
  by (simp add: make_day_def Let_def)

lemma make_day_prev_month:
  "make_day y (m - 1) (d + days_in_month (y + (m - 1) div 12) ((m - 1) mod 12)) = make_day y m d"
  using make_day_next_month [of y "m - 1" d] by (simp add: make_day_def Let_def)

lemma day_number_norm_date: "day_number (norm_date y m d) = make_day y m d"
proof (induction y m d rule: norm_date.induct)
  case (1 y m d)
  define ym where "ym = y + m div 12"
  define mn where "mn = m mod 12"
  show ?case
  proof (cases "d > days_in_month ym mn")
    case True
    then have "norm_date y m d = norm_date ym (mn + 1) (d - days_in_month ym mn)"
      by (subst norm_date.simps) (simp add: Let_def ym_def mn_def)
    also have "day_number \<dots> = make_day ym (mn + 1) (d - days_in_month ym mn)"
      using "1.IH"(1) [OF ym_def mn_def True] .
    also have "\<dots> = make_day ym mn d"
      using make_day_next_month [of ym mn "d - days_in_month ym mn"]
      by (simp add: mn_def make_day_def Let_def)
    also have "\<dots> = make_day y m d"
      unfolding ym_def mn_def by (rule make_day_carry)
    finally show ?thesis .
  next
    case False
    show ?thesis
    proof (cases "d < 1")
      case True
      define py where "py = ym + (mn - 1) div 12"
      define pm where "pm = (mn - 1) mod 12"
      from False True have "norm_date y m d = norm_date py pm (d + days_in_month py pm)"
        by (subst norm_date.simps) (simp add: Let_def ym_def mn_def py_def pm_def)
      also have "day_number \<dots> = make_day py pm (d + days_in_month py pm)"
        using "1.IH"(2) [OF ym_def mn_def False True] by (simp add: py_def pm_def)
      also have "\<dots> = make_day ym (mn - 1) (d + days_in_month py pm)"
        unfolding py_def pm_def by (rule make_day_carry)
      also have "\<dots> = make_day ym mn d"
        unfolding py_def pm_def by (rule make_day_prev_month)
      also have "\<dots> = make_day y m d"
        unfolding ym_def mn_def by (rule make_day_carry)
      finally show ?thesis .
    next
      case False
      with \<open>\<not> d > days_in_month ym mn\<close>
      have "norm_date y m d = \<lparr>civil_year = ym, civil_month = mn, civil_date = d\<rparr>"
        by (subst norm_date.simps) (simp add: Let_def ym_def mn_def)
      then show ?thesis
        using make_day_carry [of y m d] by (simp add: day_number_def ym_def mn_def)
    qed
  qed
qed

lemma valid_norm_date: "valid_date (norm_date y m d)"
proof (induction y m d rule: norm_date.induct)
  case (1 y m d)
  define ym where "ym = y + m div 12"
  define mn where "mn = m mod 12"
  have mn: "0 \<le> mn" "mn \<le> 11" by (simp_all add: mn_def)
  show ?case
  proof (cases "d > days_in_month ym mn")
    case True
    then have "norm_date y m d = norm_date ym (mn + 1) (d - days_in_month ym mn)"
      by (subst norm_date.simps) (simp add: Let_def ym_def mn_def)
    then show ?thesis
      using "1.IH"(1) [OF ym_def mn_def True] by simp
  next
    case False
    show ?thesis
    proof (cases "d < 1")
      case True
      with False have "norm_date y m d = norm_date (ym + (mn - 1) div 12) ((mn - 1) mod 12)
          (d + days_in_month (ym + (mn - 1) div 12) ((mn - 1) mod 12))"
        by (subst norm_date.simps) (simp add: Let_def ym_def mn_def)
      then show ?thesis
        using "1.IH"(2) [OF ym_def mn_def False True] by simp
    next
      case False
      with \<open>\<not> d > days_in_month ym mn\<close>
      have "norm_date y m d = \<lparr>civil_year = ym, civil_month = mn, civil_date = d\<rparr>"
        by (subst norm_date.simps) (simp add: Let_def ym_def mn_def)
      then show ?thesis
        using False \<open>\<not> d > days_in_month ym mn\<close> mn by (simp add: valid_date_def)
    qed
  qed
qed

lemma make_day_add_months: "make_day y m d + 28 * int n \<le> make_day y (m + int n) d"
proof (induction n)
  case 0
  show ?case by simp
next
  case (Suc n)
  have "m + int (Suc n) = m + int n + 1"
    by simp
  then have "make_day y (m + int (Suc n)) d = make_day y (m + int n + 1) d"
    by (rule arg_cong)
  also have "\<dots> = make_day y (m + int n) d
      + days_in_month (y + (m + int n) div 12) ((m + int n) mod 12)"
    by (rule make_day_next_month)
  finally show ?case
    using Suc.IH days_in_month_bounds(1) [of "y + (m + int n) div 12" "(m + int n) mod 12"]
    by simp
qed


section \<open>Date objects and time zones\<close>

text \<open>
  A \<^verbatim>\<open>Date\<close> object holds a time value, the milliseconds since the epoch in UTC;
  its getters and setters work on the local time of the time zone the component runs
  in, and \<^verbatim>\<open>toISOString\<close> on UTC. The model keeps a \<^verbatim>\<open>Date\<close> by its local time: the
  local calendar day and the milliseconds since local midnight. So the getters read
  the fields, and a setter writes the calendar day and leaves the time of day, as
  \<^verbatim>\<open>setMonth\<close> and \<^verbatim>\<open>setDate\<close> do.

  A time zone is its standard offset from UTC in milliseconds (positive to the east)
  and a predicate that says at which local times daylight saving is in force, which
  adds an hour. \<open>LocalTZA\<close> is the offset that belongs to a local time, and \<open>getTime\<close>
  the time value: the local time less that offset. Dates are compared by their time
  values. The model takes every local time to exist in the zone: a local time inside
  the hour that a clock change skips is not moved on.
\<close>

record jsdate =
  local_day :: civil
  ms_in_day :: int

definition getFullYear :: "jsdate \<Rightarrow> int" where
  "getFullYear t = civil_year (local_day t)"

definition getMonth :: "jsdate \<Rightarrow> int" where
  "getMonth t = civil_month (local_day t)"

definition getDate :: "jsdate \<Rightarrow> int" where
  "getDate t = civil_date (local_day t)"

definition setMonth :: "jsdate \<Rightarrow> int \<Rightarrow> jsdate" where
  "setMonth t m = t\<lparr>local_day := norm_date (getFullYear t) m (getDate t)\<rparr>"

definition setDate :: "jsdate \<Rightarrow> int \<Rightarrow> jsdate" where
  "setDate t d = t\<lparr>local_day := norm_date (getFullYear t) (getMonth t) d\<rparr>"

definition msPerDay :: int where
  "msPerDay = 86400000"

definition msPerHour :: int where
  "msPerHour = 3600000"

record zone =
  standard_offset :: int
  daylight :: "jsdate \<Rightarrow> bool"

definition LocalTZA :: "zone \<Rightarrow> jsdate \<Rightarrow> int" where
  "LocalTZA z t = standard_offset z + (if daylight z t then msPerHour else 0)"

definition local_time :: "jsdate \<Rightarrow> int" where
  "local_time t = day_number (local_day t) * msPerDay + ms_in_day t"

definition getTime :: "zone \<Rightarrow> jsdate \<Rightarrow> int" where
  "getTime z t = local_time t - LocalTZA z t"

definition date_lt :: "zone \<Rightarrow> jsdate \<Rightarrow> jsdate \<Rightarrow> bool" where
  "date_lt z a b = (getTime z a < getTime z b)"

definition date_gt :: "zone \<Rightarrow> jsdate \<Rightarrow> jsdate \<Rightarrow> bool" where
  "date_gt z a b = (getTime z a > getTime z b)"

text \<open>
  \<^verbatim>\<open>formatDate\<close> is \<^verbatim>\<open>date.toISOString().split('T')[0]\<close>: the calendar day of the
  time value in UTC, printed as \<^verbatim>\<open>YYYY-MM-DD\<close> (with a sign and six digits for a year
  outside 0..9999). \<open>utc_day\<close> is that day: the local day moved by the whole days
  that taking the offset off the time of day crosses.
\<close>

definition utc_day :: "zone \<Rightarrow> jsdate \<Rightarrow> civil" where
  "utc_day z t =
     norm_date (getFullYear t) (getMonth t)
       (getDate t + (ms_in_day t - LocalTZA z t) div msPerDay)"

definition digit :: "int \<Rightarrow> char" where
  "digit n = ''0123456789'' ! nat n"

definition pad2 :: "int \<Rightarrow> string" where
  "pad2 n = [digit (n div 10 mod 10), digit (n mod 10)]"

definition pad4 :: "int \<Rightarrow> string" where
  "pad4 n = [digit (n div 1000 mod 10), digit (n div 100 mod 10)] @ pad2 n"

definition pad6 :: "int \<Rightarrow> string" where
  "pad6 n = [digit (n div 100000 mod 10), digit (n div 10000 mod 10)] @ pad4 n"

definition iso_day :: "civil \<Rightarrow> string" where
  "iso_day c =
     (let y = civil_year c
      in (if 0 \<le> y \<and> y \<le> 9999 then pad4 y
          else (if y < 0 then ''-'' else ''+'') @ pad6 \<bar>y\<bar>)
         @ ''-'' @ pad2 (civil_month c + 1) @ ''-'' @ pad2 (civil_date c))"

definition formatDate :: "zone \<Rightarrow> jsdate \<Rightarrow> string" where
  "formatDate z date = iso_day (utc_day z date)"

subsection \<open>Local time and time value\<close>

lemma LocalTZA_bounds:
  "standard_offset z \<le> LocalTZA z t" "LocalTZA z t \<le> standard_offset z + msPerHour"
  by (simp_all add: LocalTZA_def msPerHour_def)

lemma getTime_bounds:
  "local_time t - standard_offset z - msPerHour \<le> getTime z t"
  "getTime z t \<le> local_time t - standard_offset z"
  using LocalTZA_bounds [of z t] by (simp_all add: getTime_def)


lemma day_number_local:
  "day_number (local_day t) = make_day (getFullYear t) (getMonth t) (getDate t)"
  by (simp add: day_number_def getFullYear_def getMonth_def getDate_def)

lemma local_day_setMonth:
  "day_number (local_day (setMonth t m)) = make_day (getFullYear t) m (getDate t)"
  by (simp add: setMonth_def day_number_norm_date)

lemma local_day_setDate:
  "day_number (local_day (setDate t d)) = make_day (getFullYear t) (getMonth t) d"
  by (simp add: setDate_def day_number_norm_date)

lemma ms_in_day_set [simp]:
  "ms_in_day (setMonth t m) = ms_in_day t" "ms_in_day (setDate t d) = ms_in_day t"
  by (simp_all add: setMonth_def setDate_def)


lemma local_time_setMonth_28:
  assumes "0 < k"
  shows "local_time t + 28 * msPerDay \<le> local_time (setMonth t (getMonth t + k))"
proof -
  from assms have k: "int (nat k) = k" "1 \<le> int (nat k)"
    by simp_all
  have "make_day (getFullYear t) (getMonth t) (getDate t) + 28 * int (nat k)
      \<le> make_day (getFullYear t) (getMonth t + int (nat k)) (getDate t)"
    by (rule make_day_add_months)
  then have "make_day (getFullYear t) (getMonth t) (getDate t) + 28
      \<le> make_day (getFullYear t) (getMonth t + k) (getDate t)"
    using k by simp
  then have c: "(make_day (getFullYear t) (getMonth t) (getDate t) + 28) * msPerDay
      \<le> make_day (getFullYear t) (getMonth t + k) (getDate t) * msPerDay"
    by (simp add: msPerDay_def)
  have a: "day_number (local_day (setMonth t (getMonth t + k)))
      = make_day (getFullYear t) (getMonth t + k) (getDate t)"
    by (rule local_day_setMonth)
  have b: "day_number (local_day t) = make_day (getFullYear t) (getMonth t) (getDate t)"
    by (rule day_number_local)
  from c show ?thesis
    unfolding local_time_def a b ms_in_day_set
    by (simp add: algebra_simps)
qed

lemma local_time_setDate_next:
  "local_time (setDate t (getDate t + 1)) = local_time t + msPerDay"
proof -
  have c: "make_day (getFullYear t) (getMonth t) (getDate t + 1)
      = make_day (getFullYear t) (getMonth t) (getDate t) + 1"
    by (simp add: make_day_def Let_def)
  have a: "day_number (local_day (setDate t (getDate t + 1)))
      = make_day (getFullYear t) (getMonth t) (getDate t + 1)"
    by (rule local_day_setDate)
  have b: "day_number (local_day t) = make_day (getFullYear t) (getMonth t) (getDate t)"
    by (rule day_number_local)
  show ?thesis
    unfolding local_time_def a b c ms_in_day_set
    by (simp add: algebra_simps)
qed

text \<open>
  \<open>utc_day\<close> is a calendar day in range, and its day number is the number of whole
  days in the time value; there is one such day only (\<open>utc_day_unique\<close> below), so it
  is the day that \<^verbatim>\<open>toISOString\<close> prints. Day 0 is the first of January 1970.
\<close>

lemma div_add_multiple: "(a * k + r) div k = a + r div k" if "k \<noteq> 0" for a k r :: int
  using that by (simp add: add.commute)

lemma utc_day_number: "day_number (utc_day z t) = getTime z t div msPerDay"
proof -
  have "make_day (getFullYear t) (getMonth t)
        (getDate t + (ms_in_day t - LocalTZA z t) div msPerDay)
      = make_day (getFullYear t) (getMonth t) (getDate t)
        + (ms_in_day t - LocalTZA z t) div msPerDay"
    by (simp add: make_day_def Let_def)
  then have "day_number (utc_day z t)
      = day_number (local_day t) + (ms_in_day t - LocalTZA z t) div msPerDay"
    unfolding utc_day_def day_number_norm_date day_number_local .
  also have "\<dots> = (day_number (local_day t) * msPerDay + (ms_in_day t - LocalTZA z t)) div msPerDay"
    by (rule div_add_multiple [symmetric]) (simp add: msPerDay_def)
  finally show ?thesis
    by (simp add: getTime_def local_time_def algebra_simps)
qed

lemma valid_utc_day: "valid_date (utc_day z t)"
  by (simp add: utc_day_def valid_norm_date)

lemma utc_day_local:
  assumes "0 \<le> ms_in_day t - LocalTZA z t" "ms_in_day t - LocalTZA z t < msPerDay"
    and "valid_date (local_day t)"
  shows "utc_day z t = local_day t"
proof -
  from assms(1,2) have "(ms_in_day t - LocalTZA z t) div msPerDay = 0"
    by simp
  then have "utc_day z t = norm_date (getFullYear t) (getMonth t) (getDate t)"
    by (simp add: utc_day_def)
  also have "\<dots> = local_day t"
    using assms(3)
    by (subst norm_date.simps)
      (simp add: valid_date_def Let_def getFullYear_def getMonth_def getDate_def)
  finally show ?thesis .
qed

subsection \<open>A calendar day is determined by its day number\<close>

lemma day_from_year_mono: "day_from_year y \<le> day_from_year (y + int n)"
proof (induction n)
  case 0
  show ?case by simp
next
  case (Suc n)
  have "y + int (Suc n) = y + int n + 1"
    by simp
  then have "day_from_year (y + int (Suc n)) = day_from_year (y + int n + 1)"
    by (rule arg_cong)
  also have "\<dots> = day_from_year (y + int n) + (if is_leap (y + int n) then 366 else 365)"
    by (rule day_from_year_next)
  finally show ?case
    using Suc by simp
qed

lemma month_in_range:
  fixes m :: int
  assumes "0 \<le> m" "m \<le> 11"
  shows "m = 0 \<or> m = 1 \<or> m = 2 \<or> m = 3 \<or> m = 4 \<or> m = 5 \<or> m = 6 \<or> m = 7 \<or> m = 8 \<or> m = 9
    \<or> m = 10 \<or> m = 11"
  using assms by arith

lemma year_span:
  assumes "valid_date c"
  shows "day_from_year (civil_year c) \<le> day_number c"
    and "day_number c < day_from_year (civil_year c + 1)"
proof -
  from assms have m: "0 \<le> civil_month c" "civil_month c \<le> 11"
    and d: "1 \<le> civil_date c" "civil_date c \<le> days_in_month (civil_year c) (civil_month c)"
    by (simp_all add: valid_date_def)
  from m have dm: "civil_month c div 12 = 0" "civil_month c mod 12 = civil_month c"
    by simp_all
  have n: "day_number c = day_from_year (civil_year c)
      + days_before_month (civil_year c) (civil_month c) + civil_date c - 1"
    by (simp add: day_number_def make_day_def Let_def dm)
  have "0 \<le> days_before_month (civil_year c) (civil_month c)"
    by (simp add: days_before_month_def)
  with d(1) show "day_from_year (civil_year c) \<le> day_number c"
    unfolding n by simp
  have "days_before_month (civil_year c) (civil_month c)
      + days_in_month (civil_year c) (civil_month c)
      \<le> (if is_leap (civil_year c) then 366 else 365)"
    using month_in_range [OF m]
    by (elim disjE) (simp_all add: days_before_month_def days_in_month_def)
  with d(2) show "day_number c < day_from_year (civil_year c + 1)"
    unfolding n day_from_year_next by (simp split: if_splits)
qed

lemma same_year_unique:
  assumes "0 \<le> m1" "m1 \<le> 11" "1 \<le> d1" "d1 \<le> days_in_month y m1"
    and "0 \<le> m2" "m2 \<le> 11" "1 \<le> d2" "d2 \<le> days_in_month y m2"
    and "days_before_month y m1 + d1 = days_before_month y m2 + d2"
  shows "m1 = m2 \<and> d1 = d2"
proof -
  have lt: "days_before_month y a + days_in_month y a \<le> days_before_month y b"
    if "0 \<le> a" "a < b" "b \<le> 11" for a b
  proof -
    from that have ca: "a = 0 \<or> a = 1 \<or> a = 2 \<or> a = 3 \<or> a = 4 \<or> a = 5 \<or> a = 6 \<or> a = 7
        \<or> a = 8 \<or> a = 9 \<or> a = 10 \<or> a = 11"
      by (intro month_in_range) simp_all
    from that have cb: "b = 0 \<or> b = 1 \<or> b = 2 \<or> b = 3 \<or> b = 4 \<or> b = 5 \<or> b = 6 \<or> b = 7
        \<or> b = 8 \<or> b = 9 \<or> b = 10 \<or> b = 11"
      by (intro month_in_range) simp_all
    from ca cb that(2) show ?thesis
      by (elim disjE) (simp_all add: days_before_month_def days_in_month_def)
  qed
  have "m1 = m2"
  proof (rule ccontr)
    assume "m1 \<noteq> m2"
    then consider "m1 < m2" | "m2 < m1"
      by linarith
    then show False
    proof cases
      case 1
      from lt [OF assms(1) 1 assms(6)] assms(4,7,9) show False
        by simp
    next
      case 2
      from lt [OF assms(5) 2 assms(2)] assms(8,3,9) show False
        by simp
    qed
  qed
  with assms(9) show ?thesis
    by simp
qed

lemma valid_day_unique:
  assumes "valid_date a" "valid_date b" "day_number a = day_number b"
  shows "a = b"
proof -
  have y: "civil_year a = civil_year b"
  proof (rule ccontr)
    assume ne: "civil_year a \<noteq> civil_year b"
    have False if "civil_year p < civil_year q" "valid_date p" "valid_date q"
      "day_number p = day_number q" for p q :: civil
    proof -
      define n where "n = nat (civil_year q - civil_year p - 1)"
      from that(1) have "civil_year q = civil_year p + 1 + int n"
        by (simp add: n_def)
      then have "day_from_year (civil_year p + 1) \<le> day_from_year (civil_year q)"
        using day_from_year_mono [of "civil_year p + 1" n] by simp
      with year_span(2) [OF that(2)] year_span(1) [OF that(3)] that(4) show False
        by simp
    qed
    from this [of a b] this [of b a] ne assms show False
      by (metis linorder_neqE_linordered_idom)
  qed
  from assms(1,2) have m: "0 \<le> civil_month a" "civil_month a \<le> 11" "0 \<le> civil_month b"
    "civil_month b \<le> 11"
    and d: "1 \<le> civil_date a" "civil_date a \<le> days_in_month (civil_year b) (civil_month a)"
      "1 \<le> civil_date b" "civil_date b \<le> days_in_month (civil_year b) (civil_month b)"
    by (simp_all add: valid_date_def y)
  from m have dm: "civil_month a div 12 = 0" "civil_month a mod 12 = civil_month a"
    "civil_month b div 12 = 0" "civil_month b mod 12 = civil_month b"
    by simp_all
  from assms(3) have "days_before_month (civil_year b) (civil_month a) + civil_date a
      = days_before_month (civil_year b) (civil_month b) + civil_date b"
    by (simp add: day_number_def make_day_def Let_def dm y)
  from same_year_unique [OF m(1,2) d(1,2) m(3,4) d(3,4) this] y show ?thesis
    by simp
qed

lemma epoch: "day_number \<lparr>civil_year = 1970, civil_month = 0, civil_date = 1\<rparr> = 0"
  by (simp add: day_number_def make_day_def day_from_year_def days_before_month_def)

lemma utc_day_unique:
  assumes "valid_date c" "day_number c = getTime z t div msPerDay"
  shows "utc_day z t = c"
  using valid_utc_day assms(1) by (rule valid_day_unique) (simp add: utc_day_number assms(2))

section \<open>The map component: events, properties, remote service\<close>

text \<open>
  An event carries the fields the component reads: its identifier, its magnitude
  (\<open>None\<close> when \<^verbatim>\<open>properties.mag\<close> is not a number, which the magnitude filter
  tests with \<^verbatim>\<open>typeof\<close>) and its coordinates (longitude, latitude, depth).
  A query to the event service carries the two calendar days that \<^verbatim>\<open>formatDate\<close>
  prints into \<^verbatim>\<open>starttime\<close> and \<^verbatim>\<open>endtime\<close>, and the magnitude bounds.
  The remote service is a function from the number of requests already issued and
  the request to the response: \<^verbatim>\<open>fetch\<close> either rejects (\<open>NetworkError\<close>) or gives
  a response with its \<^verbatim>\<open>ok\<close> flag and a body, which \<^verbatim>\<open>response.json()\<close> either fails
  to parse or parses into an object whose \<^verbatim>\<open>features\<close> may be missing.
\<close>

record feature =
  feature_id :: string
  mag :: "real option"
  lon :: real
  lat :: real
  depth :: real

record props =
  minMagnitude :: real
  timeWindow :: string
  dateRange :: "jsdate option \<times> jsdate option"
  magRange :: "(real \<times> real) option"
  depthRange :: "(real \<times> real) option"
  maxCount :: "int option"

datatype request =
  Query (starttime: civil) (endtime: civil) (minmagnitude: real) (maxmagnitude: real)
  | Feed string

datatype body = ParseError string | Features "feature list option"

datatype response = NetworkError string | Http bool body

type_synonym remote = "nat \<Rightarrow> request \<Rightarrow> response"

record state =
  earthquakes :: "feature list"
  loading :: bool
  error :: "string option"
  reported_count :: "nat option"

definition time_params :: "request \<Rightarrow> string" where
  "time_params r =
     ''&starttime='' @ iso_day (starttime r) @ ''&endtime='' @ iso_day (endtime r)"

text \<open>
  The chunked loop of \<^verbatim>\<open>fetchEarthquakes\<close> (the \<^verbatim>\<open>do ... while\<close> over the date range),
  in the time zone \<open>z\<close>. The result is the list of the requests issued, in order, and
  either the message of the error thrown or the events accumulated.
\<close>

definition monthDiff :: "jsdate \<Rightarrow> jsdate \<Rightarrow> int" where
  "monthDiff startDate endDate =
     (getFullYear endDate - getFullYear startDate) * 12 + (getMonth endDate - getMonth startDate)"

definition chunk_end :: "zone \<Rightarrow> int \<Rightarrow> jsdate \<Rightarrow> jsdate \<Rightarrow> jsdate" where
  "chunk_end z chunkSize endDate currentStart =
     (if chunkSize > 0
      then (let chunkEnd = setMonth currentStart (getMonth currentStart + chunkSize)
            in if date_gt z chunkEnd endDate then endDate else chunkEnd)
      else endDate)"

definition next_start :: "jsdate \<Rightarrow> jsdate" where
  "next_start chunkEnd = setDate chunkEnd (getDate chunkEnd + 1)"

definition chunk_url :: "zone \<Rightarrow> real \<Rightarrow> real \<Rightarrow> jsdate \<times> jsdate \<Rightarrow> request" where
  "chunk_url z lowerMag upperMag c = Query (utc_day z (fst c)) (utc_day z (snd c)) lowerMag upperMag"

lemma local_time_next_start: "local_time (next_start t) = local_time t + msPerDay"
  by (simp add: next_start_def local_time_setDate_next)

lemma next_start_later: "getTime z t + 23 * msPerHour \<le> getTime z (next_start t)"
  using getTime_bounds [where z = z and t = "next_start t"] getTime_bounds [where z = z and t = t]
  by (simp add: local_time_next_start msPerDay_def msPerHour_def)

lemma chunk_end_unfold:
  "chunk_end z chunkSize endDate cur =
     (if chunkSize > 0
      then (if date_gt z (setMonth cur (getMonth cur + chunkSize)) endDate then endDate
            else setMonth cur (getMonth cur + chunkSize))
      else endDate)"
  by (simp add: chunk_end_def Let_def)

lemma chunk_end_cases:
  "chunk_end z chunkSize endDate cur = endDate \<or>
   0 < chunkSize \<and> chunk_end z chunkSize endDate cur = setMonth cur (getMonth cur + chunkSize) \<and>
     getTime z (setMonth cur (getMonth cur + chunkSize)) \<le> getTime z endDate"
  by (auto simp: chunk_end_unfold date_gt_def)

lemma loop_continues:
  assumes "0 < chunkSize" and "date_lt z (next_start (chunk_end z chunkSize endDate cur)) endDate"
  shows "chunk_end z chunkSize endDate cur = setMonth cur (getMonth cur + chunkSize)"
    and "local_time cur + 29 * msPerDay \<le> local_time (next_start (chunk_end z chunkSize endDate cur))"
    and "getTime z cur + 28 * msPerDay \<le> getTime z (next_start (chunk_end z chunkSize endDate cur))"
proof -
  have "chunk_end z chunkSize endDate cur \<noteq> endDate"
  proof
    assume "chunk_end z chunkSize endDate cur = endDate"
    with assms(2) have "getTime z (next_start endDate) < getTime z endDate"
      by (simp add: date_lt_def)
    with next_start_later [of z endDate] show False
      by (simp add: msPerHour_def)
  qed
  with chunk_end_cases [of z chunkSize endDate cur]
  show ce: "chunk_end z chunkSize endDate cur = setMonth cur (getMonth cur + chunkSize)"
    by simp
  show adv: "local_time cur + 29 * msPerDay
      \<le> local_time (next_start (chunk_end z chunkSize endDate cur))"
    unfolding ce local_time_next_start using local_time_setMonth_28 [OF assms(1), of cur]
    by simp
  show "getTime z cur + 28 * msPerDay \<le> getTime z (next_start (chunk_end z chunkSize endDate cur))"
    using adv getTime_bounds [where z = z and t = "next_start (chunk_end z chunkSize endDate cur)"]
      getTime_bounds [where z = z and t = cur]
    by (simp add: msPerDay_def msPerHour_def)
qed

function fetch_chunks ::
  "zone \<Rightarrow> remote \<Rightarrow> real \<Rightarrow> real \<Rightarrow> jsdate \<Rightarrow> int \<Rightarrow> jsdate \<Rightarrow> feature list \<Rightarrow> nat
     \<Rightarrow> request list \<times> (string + feature list)" where
  "fetch_chunks z fetch lowerMag upperMag endDate chunkSize currentStart allEarthquakes n =
     (let chunkEnd = chunk_end z chunkSize endDate currentStart;
          url = Query (utc_day z currentStart) (utc_day z chunkEnd) lowerMag upperMag
      in case fetch n url of
           NetworkError msg \<Rightarrow> ([url], Inl msg)
         | Http ok data \<Rightarrow>
             if \<not> ok then ([url], Inl ''Failed to fetch earthquake data'')
             else (case data of
                 ParseError msg \<Rightarrow> ([url], Inl msg)
               | Features fs \<Rightarrow>
                   let all' = (case fs of
                                 None \<Rightarrow> allEarthquakes
                               | Some l \<Rightarrow> if length l > 0 then allEarthquakes @ l
                                           else allEarthquakes)
                   in if chunkSize > 0
                      then if date_lt z (next_start chunkEnd) endDate
                           then (case fetch_chunks z fetch lowerMag upperMag endDate chunkSize
                                        (next_start chunkEnd) all' (Suc n) of
                                   (reqs, res) \<Rightarrow> (url # reqs, res))
                           else ([url], Inr all')
                      else ([url], Inr all')))"
  by pat_completeness auto
termination
proof (relation "measure (\<lambda>(z, fetch, lowerMag, upperMag, endDate, chunkSize, currentStart, acc, n).
    nat (getTime z endDate - getTime z currentStart))")
  show "wf (measure (\<lambda>(z, fetch, lowerMag, upperMag, endDate, chunkSize, currentStart, acc, n).
    nat (getTime z endDate - getTime z currentStart)))"
    by simp
next
  fix z :: zone and fetch :: remote and lowerMag upperMag :: real
    and endDate currentStart chunkEnd :: jsdate
    and chunkSize :: int and allEarthquakes all' :: "feature list" and n :: nat
  assume ce: "chunkEnd = chunk_end z chunkSize endDate currentStart"
    and pos: "0 < chunkSize"
    and lt: "date_lt z (next_start chunkEnd) endDate"
  from loop_continues(3) [OF pos lt [unfolded ce]]
  have "getTime z currentStart < getTime z (next_start chunkEnd)"
    by (simp add: ce msPerDay_def)
  with lt show "((z, fetch, lowerMag, upperMag, endDate, chunkSize, next_start chunkEnd, all', Suc n),
      z, fetch, lowerMag, upperMag, endDate, chunkSize, currentStart, allEarthquakes, n)
    \<in> measure (\<lambda>(z, fetch, lowerMag, upperMag, endDate, chunkSize, currentStart, acc, n).
        nat (getTime z endDate - getTime z currentStart))"
    by (simp add: date_lt_def)
qed

declare fetch_chunks.simps [simp del]

text \<open>
  \<open>chunk_list\<close> is the sequence of the chunks that the loop goes through when no
  request fails: the cursor with the end of its chunk, for every iteration.
\<close>

function chunk_list :: "zone \<Rightarrow> jsdate \<Rightarrow> int \<Rightarrow> jsdate \<Rightarrow> (jsdate \<times> jsdate) list" where
  "chunk_list z endDate chunkSize currentStart =
     (currentStart, chunk_end z chunkSize endDate currentStart) #
       (if chunkSize > 0 \<and> date_lt z (next_start (chunk_end z chunkSize endDate currentStart)) endDate
        then chunk_list z endDate chunkSize (next_start (chunk_end z chunkSize endDate currentStart))
        else [])"
  by pat_completeness auto
termination
proof (relation "measure (\<lambda>(z, endDate, chunkSize, currentStart).
    nat (getTime z endDate - getTime z currentStart))")
  show "wf (measure (\<lambda>(z, endDate, chunkSize, currentStart).
    nat (getTime z endDate - getTime z currentStart)))"
    by simp
next
  fix z :: zone and endDate currentStart :: jsdate and chunkSize :: int
  assume a: "0 < chunkSize \<and> date_lt z (next_start (chunk_end z chunkSize endDate currentStart)) endDate"
  then have "getTime z currentStart < getTime z (next_start (chunk_end z chunkSize endDate currentStart))"
    using loop_continues(3) [of chunkSize z endDate currentStart] by (simp add: msPerDay_def)
  with a show "((z, endDate, chunkSize, next_start (chunk_end z chunkSize endDate currentStart)),
      z, endDate, chunkSize, currentStart)
    \<in> measure (\<lambda>(z, endDate, chunkSize, currentStart). nat (getTime z endDate - getTime z currentStart))"
    by (simp add: date_lt_def)
qed

declare chunk_list.simps [simp del]

text \<open>
  The filters of \<^verbatim>\<open>fetchEarthquakes\<close>. The bounds default to \<open>0\<close> and to
  \<^verbatim>\<open>minMagnitude\<close> when \<^verbatim>\<open>magRange\<close> is not an array. The custom-range branch filters
  by depth and caps the count; the feed branch filters by magnitude first.
\<close>

definition lowerMag :: "props \<Rightarrow> real" where
  "lowerMag p = (case magRange p of Some r \<Rightarrow> fst r | None \<Rightarrow> 0)"

definition upperMag :: "props \<Rightarrow> real" where
  "upperMag p = (case magRange p of Some r \<Rightarrow> snd r | None \<Rightarrow> minMagnitude p)"

definition mag_filter :: "props \<Rightarrow> feature list \<Rightarrow> feature list" where
  "mag_filter p allEarthquakes =
     filter (\<lambda>e. case mag e of None \<Rightarrow> False
                  | Some m \<Rightarrow> m \<ge> lowerMag p \<and> m \<le> upperMag p) allEarthquakes"

definition depth_filter :: "(real \<times> real) option \<Rightarrow> feature list \<Rightarrow> feature list" where
  "depth_filter bounds filteredEarthquakes =
     (case bounds of
        None \<Rightarrow> filteredEarthquakes
      | Some (minDepth, maxDepth) \<Rightarrow>
          filter (\<lambda>earthquake. depth earthquake \<ge> minDepth \<and> depth earthquake \<le> maxDepth)
            filteredEarthquakes)"

definition count_cap :: "int option \<Rightarrow> feature list \<Rightarrow> feature list" where
  "count_cap cap filteredEarthquakes =
     (case cap of
        None \<Rightarrow> filteredEarthquakes
      | Some n \<Rightarrow>
          if n > 0 \<and> int (length filteredEarthquakes) > n
          then take (nat n) filteredEarthquakes else filteredEarthquakes)"

definition pipeline_custom :: "props \<Rightarrow> feature list \<Rightarrow> feature list" where
  "pipeline_custom p allEarthquakes =
     count_cap (maxCount p) (depth_filter (depthRange p) allEarthquakes)"

definition pipeline_named :: "props \<Rightarrow> feature list \<Rightarrow> feature list" where
  "pipeline_named p features =
     count_cap (maxCount p) (depth_filter (depthRange p) (mag_filter p features))"

definition feed_url :: "string \<Rightarrow> request" where
  "feed_url w =
     Feed (''https://earthquake.usgs.gov/earthquakes/feed/v1.0/summary/'' @
       (if w = ''day'' then ''all_day.geojson''
        else if w = ''week'' then ''all_week.geojson''
        else ''all_day.geojson''))"

definition fetch_feed :: "remote \<Rightarrow> string \<Rightarrow> request list \<times> (string + feature list)" where
  "fetch_feed fetch w =
     (let url = feed_url w
      in case fetch 0 url of
           NetworkError msg \<Rightarrow> ([url], Inl msg)
         | Http ok data \<Rightarrow>
             if \<not> ok then ([url], Inl ''Failed to fetch earthquake data'')
             else (case data of
                 ParseError msg \<Rightarrow> ([url], Inl msg)
               | Features fs \<Rightarrow> ([url], Inr (case fs of None \<Rightarrow> [] | Some l \<Rightarrow> l))))"

text \<open>
  The end of \<^verbatim>\<open>fetchEarthquakes\<close>: an error thrown anywhere in the \<^verbatim>\<open>try\<close> block
  sets the error message and leaves the events as they were; otherwise the filtered
  events replace them and their number is reported. Loading ends either way.
\<close>

definition finish :: "state \<Rightarrow> (feature list \<Rightarrow> feature list)
    \<Rightarrow> request list \<times> (string + feature list) \<Rightarrow> request list \<times> state" where
  "finish st pipeline r =
     (case r of
        (reqs, Inl msg) \<Rightarrow> (reqs, st\<lparr>error := Some msg, loading := False\<rparr>)
      | (reqs, Inr allEarthquakes) \<Rightarrow>
          (let filteredEarthquakes = pipeline allEarthquakes
           in (reqs, st\<lparr>earthquakes := filteredEarthquakes,
                        reported_count := Some (length filteredEarthquakes),
                        loading := False\<rparr>)))"

definition fetchEarthquakes :: "zone \<Rightarrow> props \<Rightarrow> remote \<Rightarrow> state \<Rightarrow> request list \<times> state" where
  "fetchEarthquakes z p fetch st =
     (let st1 = st\<lparr>loading := True, error := None\<rparr>
      in case dateRange p of
           (Some startDate, Some endDate) \<Rightarrow>
             (let chunkSize = (if monthDiff startDate endDate > 1 then 1 else 0)
              in finish st1 (pipeline_custom p)
                   (fetch_chunks z fetch (lowerMag p) (upperMag p) endDate chunkSize startDate [] 0))
         | _ \<Rightarrow> finish st1 (pipeline_named p) (fetch_feed fetch (timeWindow p)))"

subsection \<open>One iteration of the chunked loop\<close>

definition request_failed :: "response \<Rightarrow> bool" where
  "request_failed r =
     (case r of
        NetworkError msg \<Rightarrow> True
      | Http ok data \<Rightarrow> \<not> ok \<or> (case data of ParseError msg \<Rightarrow> True | Features fs \<Rightarrow> False))"

definition failure_message :: "response \<Rightarrow> string" where
  "failure_message r =
     (case r of
        NetworkError msg \<Rightarrow> msg
      | Http ok data \<Rightarrow>
          if \<not> ok then ''Failed to fetch earthquake data''
          else (case data of ParseError msg \<Rightarrow> msg | Features fs \<Rightarrow> []))"

definition features_of :: "response \<Rightarrow> feature list" where
  "features_of r =
     (case r of
        Http ok (Features (Some l)) \<Rightarrow> l
      | _ \<Rightarrow> [])"

lemma fetch_chunks_step:
  "fetch_chunks z fetch lo hi endDate chunkSize cur acc n =
     (let chunkEnd = chunk_end z chunkSize endDate cur;
          url = chunk_url z lo hi (cur, chunkEnd)
      in if request_failed (fetch n url) then ([url], Inl (failure_message (fetch n url)))
         else if chunkSize > 0 \<and> date_lt z (next_start chunkEnd) endDate
         then (url # fst (fetch_chunks z fetch lo hi endDate chunkSize (next_start chunkEnd)
                            (acc @ features_of (fetch n url)) (Suc n)),
               snd (fetch_chunks z fetch lo hi endDate chunkSize (next_start chunkEnd)
                            (acc @ features_of (fetch n url)) (Suc n)))
         else ([url], Inr (acc @ features_of (fetch n url))))"
  by (subst fetch_chunks.simps)
    (auto simp: Let_def request_failed_def failure_message_def features_of_def chunk_url_def
      split: response.splits body.splits option.splits prod.splits)

lemma fetch_chunks_induct [consumes 0, case_names step]:
  assumes "\<And>cur acc n.
      (\<not> request_failed (fetch n (chunk_url z lo hi (cur, chunk_end z chunkSize endDate cur))) \<Longrightarrow>
       0 < chunkSize \<Longrightarrow>
       date_lt z (next_start (chunk_end z chunkSize endDate cur)) endDate \<Longrightarrow>
       P (next_start (chunk_end z chunkSize endDate cur))
         (acc @ features_of (fetch n (chunk_url z lo hi (cur, chunk_end z chunkSize endDate cur))))
         (Suc n))
      \<Longrightarrow> P cur acc n"
  shows "P cur acc n"
  using assms
proof (induction z fetch lo hi endDate chunkSize cur acc n rule: fetch_chunks.induct)
  case (1 z fetch lo hi endDate chunkSize cur acc n)
  show ?case
  proof (rule "1.prems")
    assume nf: "\<not> request_failed (fetch n (chunk_url z lo hi (cur, chunk_end z chunkSize endDate cur)))"
      and pos: "0 < chunkSize"
      and lt: "date_lt z (next_start (chunk_end z chunkSize endDate cur)) endDate"
    define url where "url = Query (utc_day z cur) (utc_day z (chunk_end z chunkSize endDate cur)) lo hi"
    have u: "chunk_url z lo hi (cur, chunk_end z chunkSize endDate cur) = url"
      by (simp add: chunk_url_def url_def)
    from nf obtain fs where r: "fetch n url = Http True (Features fs)"
      unfolding u by (auto simp: request_failed_def split: response.splits body.splits)
    have e: "acc @ features_of (Http True (Features fs)) =
        (case fs of None \<Rightarrow> acc | Some l \<Rightarrow> if length l > 0 then acc @ l else acc)"
      by (auto simp: features_of_def split: option.splits)
    have "P (next_start (chunk_end z chunkSize endDate cur))
        (case fs of None \<Rightarrow> acc | Some l \<Rightarrow> if length l > 0 then acc @ l else acc) (Suc n)"
      using "1.IH" [OF refl url_def r _ refl refl pos lt] "1.prems" by simp
    then show "P (next_start (chunk_end z chunkSize endDate cur))
         (acc @ features_of (fetch n (chunk_url z lo hi (cur, chunk_end z chunkSize endDate cur))))
         (Suc n)"
      by (simp only: u r e)
  qed
qed

lemma fetch_chunks_unfold:
  "fetch_chunks z fetch lo hi endDate chunkSize cur acc n =
     (if request_failed (fetch n (chunk_url z lo hi (cur, chunk_end z chunkSize endDate cur)))
      then ([chunk_url z lo hi (cur, chunk_end z chunkSize endDate cur)],
            Inl (failure_message (fetch n (chunk_url z lo hi (cur, chunk_end z chunkSize endDate cur)))))
      else if chunkSize > 0 \<and> date_lt z (next_start (chunk_end z chunkSize endDate cur)) endDate
      then apfst ((#) (chunk_url z lo hi (cur, chunk_end z chunkSize endDate cur)))
             (fetch_chunks z fetch lo hi endDate chunkSize
                (next_start (chunk_end z chunkSize endDate cur))
                (acc @ features_of (fetch n (chunk_url z lo hi (cur, chunk_end z chunkSize endDate cur))))
                (Suc n))
      else ([chunk_url z lo hi (cur, chunk_end z chunkSize endDate cur)],
            Inr (acc @ features_of (fetch n (chunk_url z lo hi (cur, chunk_end z chunkSize endDate cur))))))"
  by (subst fetch_chunks_step) (simp add: Let_def prod_eq_iff)

section \<open>The filtering pipeline\<close>

lemma subseq_mag_filter: "subseq (mag_filter p xs) xs"
  by (simp add: mag_filter_def)

lemma subseq_depth_filter: "subseq (depth_filter r xs) xs"
  by (auto simp: depth_filter_def split: option.splits)

lemma count_cap_take:
  "count_cap cap xs = (case cap of None \<Rightarrow> xs | Some n \<Rightarrow> if n > 0 then take (nat n) xs else xs)"
  by (auto simp: count_cap_def split: option.splits)

lemma subseq_take: "subseq (take n xs) xs"
  by (metis append_take_drop_id prefix_def prefix_imp_subseq)

lemma subseq_count_cap: "subseq (count_cap cap xs) xs"
  by (auto simp: count_cap_take subseq_take split: option.splits)

lemma set_count_cap: "set (count_cap cap xs) \<subseteq> set xs"
  by (auto simp: count_cap_take split: option.splits dest: in_set_takeD)

lemma set_depth_filter: "set (depth_filter r xs) \<subseteq> set xs"
  by (auto simp: depth_filter_def split: option.splits)

lemma mag_filter_iff:
  "e \<in> set (mag_filter p xs) \<longleftrightarrow>
     e \<in> set xs \<and> (\<exists>m. mag e = Some m \<and> lowerMag p \<le> m \<and> m \<le> upperMag p)"
  by (auto simp: mag_filter_def split: option.splits)

text \<open>
  The bounds that the claims speak of: an event is within the magnitude bounds when
  its magnitude is a number between the lower and the upper bound, and within the
  depth bounds when no depth range is set or its depth is inside the range.
\<close>

definition in_mag_bounds :: "props \<Rightarrow> feature \<Rightarrow> bool" where
  "in_mag_bounds p e = (\<exists>m. mag e = Some m \<and> lowerMag p \<le> m \<and> m \<le> upperMag p)"

definition in_depth_bounds :: "props \<Rightarrow> feature \<Rightarrow> bool" where
  "in_depth_bounds p e =
     (case depthRange p of None \<Rightarrow> True | Some (lo, hi) \<Rightarrow> lo \<le> depth e \<and> depth e \<le> hi)"

lemma mag_filter_bounds: "mag_filter p xs = filter (in_mag_bounds p) xs"
  unfolding mag_filter_def in_mag_bounds_def
  by (rule filter_cong) (auto split: option.splits)

lemma depth_filter_bounds: "depth_filter (depthRange p) xs = filter (in_depth_bounds p) xs"
  unfolding depth_filter_def in_depth_bounds_def
  by (auto split: option.splits intro: filter_cong)

lemma pipeline_custom_filter:
  "pipeline_custom p raw = count_cap (maxCount p) (filter (in_depth_bounds p) raw)"
  by (simp add: pipeline_custom_def depth_filter_bounds)

lemma pipeline_named_filter:
  "pipeline_named p raw =
     count_cap (maxCount p) (filter (\<lambda>e. in_mag_bounds p e \<and> in_depth_bounds p e) raw)"
  by (simp add: pipeline_named_def depth_filter_bounds mag_filter_bounds conj_commute)

subsection \<open>Concrete inputs\<close>

text \<open>
  Dates are written with the month counted from one: \<open>day y m d\<close> is a calendar day
  and \<open>ymd y m d\<close> the \<^verbatim>\<open>Date\<close> of its local midnight, which is what the calendar of
  the filter panel gives for a day picked; \<open>end_of_day\<close> is the
  \<^verbatim>\<open>setHours(23, 59, 59, 999)\<close> that the panel applies to the end of a range. The zones
  are UTC, India (five and a half hours east, no daylight saving), and New York and
  London with their daylight saving of 2024. \<open>feed_props\<close> are properties with no date
  range (the feed of the last day), \<open>range_props\<close> the same with a date range;
  \<open>serving fs\<close> is a remote service that answers every request with the events \<open>fs\<close>.
\<close>

definition day :: "int \<Rightarrow> int \<Rightarrow> int \<Rightarrow> civil" where
  "day y m d = \<lparr>civil_year = y, civil_month = m - 1, civil_date = d\<rparr>"

definition ymd :: "int \<Rightarrow> int \<Rightarrow> int \<Rightarrow> jsdate" where
  "ymd y m d = \<lparr>local_day = day y m d, ms_in_day = 0\<rparr>"

definition end_of_day :: "jsdate \<Rightarrow> jsdate" where
  "end_of_day t = t\<lparr>ms_in_day := 86399999\<rparr>"

definition utc :: zone where
  "utc = \<lparr>standard_offset = 0, daylight = (\<lambda>t. False)\<rparr>"

definition kolkata :: zone where
  "kolkata = \<lparr>standard_offset = 19800000, daylight = (\<lambda>t. False)\<rparr>"

definition new_york :: zone where
  "new_york = \<lparr>standard_offset = - 18000000,
     daylight = (\<lambda>t. local_time (ymd 2024 3 10) + 2 * msPerHour \<le> local_time t \<and>
                     local_time t < local_time (ymd 2024 11 3) + 2 * msPerHour)\<rparr>"

definition london :: zone where
  "london = \<lparr>standard_offset = 0,
     daylight = (\<lambda>t. local_time (ymd 2024 3 31) + msPerHour \<le> local_time t \<and>
                     local_time t < local_time (ymd 2024 10 27) + 2 * msPerHour)\<rparr>"

definition quake :: "string \<Rightarrow> real \<Rightarrow> real \<Rightarrow> feature" where
  "quake i m d = \<lparr>feature_id = i, mag = Some m, lon = 0, lat = 0, depth = d\<rparr>"

definition feed_props :: props where
  "feed_props = \<lparr>minMagnitude = 2, timeWindow = ''day'', dateRange = (None, None),
     magRange = Some (0, 5), depthRange = Some (0, 800), maxCount = Some 1000\<rparr>"

definition range_props :: "jsdate \<Rightarrow> jsdate \<Rightarrow> props" where
  "range_props s e = feed_props\<lparr>dateRange := (Some s, Some e)\<rparr>"

definition serving :: "feature list \<Rightarrow> remote" where
  "serving fs n r = Http True (Features (Some fs))"

definition idle :: state where
  "idle = \<lparr>earthquakes = [], loading = False, error = None, reported_count = None\<rparr>"

lemmas example_defs = ymd_def day_def end_of_day_def quake_def feed_props_def range_props_def
  serving_def idle_def

lemmas fetch_defs = fetchEarthquakes_def finish_def fetch_feed_def feed_url_def
  pipeline_custom_def pipeline_named_def mag_filter_def depth_filter_def count_cap_def
  lowerMag_def upperMag_def monthDiff_def request_failed_def failure_message_def
  features_of_def Let_def getFullYear_def getMonth_def getDate_def

subsection \<open>Magnitude and depth bounds of the retained events\<close>

text \<open>
  Claim C1, as stated, fails: with a date range the component sends the magnitude
  bounds to the server as query parameters and does not filter by magnitude itself.
  A server that answers a query for magnitudes 0 to 5 with an event of magnitude 9
  gets that event into the retained set.
\<close>

theorem custom_range_keeps_magnitude_9:
  "earthquakes (snd (fetchEarthquakes utc (range_props (ymd 2024 1 1) (end_of_day (ymd 2024 1 15)))
      (serving [quake ''us1'' 9 10]) idle)) = [quake ''us1'' 9 10]
   \<and> upperMag (range_props (ymd 2024 1 1) (end_of_day (ymd 2024 1 15))) = 5
   \<and> \<not> in_mag_bounds (range_props (ymd 2024 1 1) (end_of_day (ymd 2024 1 15))) (quake ''us1'' 9 10)"
  by (simp add: fetch_chunks_step fetch_defs example_defs in_mag_bounds_def)

text \<open>
  Claim C1, amended. The output of the pipeline is a sub-list of its input, in the
  input's order. Every retained event is within the depth bounds. On the feed path
  every retained event is also within the magnitude bounds: the output is the events
  within both bounds, cut by the cap. On the date-range path the pipeline has no
  magnitude filter: the output is the events within the depth bounds, cut by the cap,
  and it is the same whatever the magnitude range and the minimum magnitude are; so
  the retained events are within the magnitude bounds when all the fetched events are.
\<close>

theorem pipeline_output_bounds:
  "subseq (pipeline_named p raw) raw \<and> subseq (pipeline_custom p raw) raw \<and>
   (\<forall>e \<in> set (pipeline_named p raw). in_mag_bounds p e \<and> in_depth_bounds p e) \<and>
   (\<forall>e \<in> set (pipeline_custom p raw). in_depth_bounds p e) \<and>
   pipeline_named p raw =
     (case maxCount p of
        None \<Rightarrow> filter (\<lambda>e. in_mag_bounds p e \<and> in_depth_bounds p e) raw
      | Some n \<Rightarrow>
          if 0 < n then take (nat n) (filter (\<lambda>e. in_mag_bounds p e \<and> in_depth_bounds p e) raw)
          else filter (\<lambda>e. in_mag_bounds p e \<and> in_depth_bounds p e) raw) \<and>
   pipeline_custom p raw =
     (case maxCount p of
        None \<Rightarrow> filter (in_depth_bounds p) raw
      | Some n \<Rightarrow>
          if 0 < n then take (nat n) (filter (in_depth_bounds p) raw)
          else filter (in_depth_bounds p) raw) \<and>
   pipeline_custom (p\<lparr>magRange := r, minMagnitude := m\<rparr>) raw = pipeline_custom p raw \<and>
   ((\<forall>e \<in> set raw. in_mag_bounds p e) \<longrightarrow> (\<forall>e \<in> set (pipeline_custom p raw). in_mag_bounds p e))"
proof (intro conjI ballI impI)
  show "subseq (pipeline_named p raw) raw"
    unfolding pipeline_named_def
    by (meson subseq_count_cap subseq_depth_filter subseq_mag_filter subseq_order.order_trans)
  show sub: "subseq (pipeline_custom p raw) raw"
    unfolding pipeline_custom_def
    by (meson subseq_count_cap subseq_depth_filter subseq_order.order_trans)
  show "in_mag_bounds p e" if "e \<in> set (pipeline_named p raw)" for e
  proof -
    from that have "e \<in> set (mag_filter p raw)"
      using set_count_cap set_depth_filter unfolding pipeline_named_def by blast
    then show ?thesis
      by (simp add: mag_filter_iff in_mag_bounds_def)
  qed
  show "in_depth_bounds p e" if "e \<in> set (pipeline_named p raw)" for e
  proof -
    from that have "e \<in> set (depth_filter (depthRange p) (mag_filter p raw))"
      using set_count_cap unfolding pipeline_named_def by blast
    then show ?thesis
      by (simp add: depth_filter_bounds)
  qed
  show "in_depth_bounds p e" if "e \<in> set (pipeline_custom p raw)" for e
  proof -
    from that have "e \<in> set (depth_filter (depthRange p) raw)"
      using set_count_cap unfolding pipeline_custom_def by blast
    then show ?thesis
      by (simp add: depth_filter_bounds)
  qed
  show "pipeline_named p raw =
     (case maxCount p of
        None \<Rightarrow> filter (\<lambda>e. in_mag_bounds p e \<and> in_depth_bounds p e) raw
      | Some n \<Rightarrow>
          if 0 < n then take (nat n) (filter (\<lambda>e. in_mag_bounds p e \<and> in_depth_bounds p e) raw)
          else filter (\<lambda>e. in_mag_bounds p e \<and> in_depth_bounds p e) raw)"
    unfolding pipeline_named_filter count_cap_take ..
  show "pipeline_custom p raw =
     (case maxCount p of
        None \<Rightarrow> filter (in_depth_bounds p) raw
      | Some n \<Rightarrow>
          if 0 < n then take (nat n) (filter (in_depth_bounds p) raw)
          else filter (in_depth_bounds p) raw)"
    unfolding pipeline_custom_filter count_cap_take ..
  show "pipeline_custom (p\<lparr>magRange := r, minMagnitude := m\<rparr>) raw = pipeline_custom p raw"
    by (simp add: pipeline_custom_def)
  show "in_mag_bounds p e"
    if "\<forall>e \<in> set raw. in_mag_bounds p e" "e \<in> set (pipeline_custom p raw)" for e
  proof -
    from that(2) have "e \<in> set raw"
      using set_count_cap set_depth_filter unfolding pipeline_custom_def by blast
    with that(1) show ?thesis by blast
  qed
qed

theorem pipeline_output_bounds_witness:
  "list_all (in_mag_bounds feed_props) [quake ''a'' 3 10, quake ''b'' 4 20, quake ''c'' 4 900]
   \<and> pipeline_custom feed_props [quake ''a'' 3 10, quake ''b'' 4 20, quake ''c'' 4 900]
       = [quake ''a'' 3 10, quake ''b'' 4 20]
   \<and> pipeline_custom (feed_props\<lparr>magRange := Some (6, 7), minMagnitude := 6\<rparr>)
         [quake ''a'' 3 10, quake ''b'' 4 20, quake ''c'' 4 900]
       = [quake ''a'' 3 10, quake ''b'' 4 20]
   \<and> pipeline_named feed_props [quake ''a'' 3 10, quake ''b'' 4 20, quake ''c'' 4 900]
       = [quake ''a'' 3 10, quake ''b'' 4 20]
   \<and> in_mag_bounds feed_props (quake ''b'' 4 20) \<and> in_depth_bounds feed_props (quake ''b'' 4 20)
   \<and> \<not> in_depth_bounds feed_props (quake ''c'' 4 900)"
  using pipeline_output_bounds [where p = feed_props and r = "Some (6, 7)" and m = 6
      and raw = "[quake ''a'' 3 10, quake ''b'' 4 20, quake ''c'' 4 900]"]
  by (simp add: fetch_defs example_defs in_mag_bounds_def in_depth_bounds_def)

subsection \<open>The count cap\<close>

text \<open>
  Claim C4. For a cap \<open>N \<ge> 1\<close> the cap keeps the first \<open>N\<close> events of the filtered
  sequence it is given, in their order, so at most \<open>N\<close>; the output of the pipeline is
  then the first \<open>N\<close> of the events within the depth bounds on the date-range path,
  and of the events within the magnitude and the depth bounds on the feed path, in the
  order in which they were fetched. When the cap is absent or not positive, the output
  is all of these events.
\<close>

theorem count_cap_is_prefix:
  "(1 \<le> N \<longrightarrow>
      count_cap (Some N) xs = take (nat N) xs \<and>
      length (count_cap (Some N) xs) \<le> nat N \<and>
      (maxCount p = Some N \<longrightarrow>
         pipeline_custom p raw = take (nat N) (filter (in_depth_bounds p) raw) \<and>
         pipeline_named p raw
           = take (nat N) (filter (\<lambda>e. in_mag_bounds p e \<and> in_depth_bounds p e) raw) \<and>
         length (pipeline_custom p raw) \<le> nat N \<and>
         length (pipeline_named p raw) \<le> nat N)) \<and>
   (maxCount p = None \<or> (\<exists>n. maxCount p = Some n \<and> n \<le> 0) \<longrightarrow>
      count_cap (maxCount p) xs = xs \<and>
      pipeline_custom p raw = filter (in_depth_bounds p) raw \<and>
      pipeline_named p raw = filter (\<lambda>e. in_mag_bounds p e \<and> in_depth_bounds p e) raw)"
proof (intro conjI impI)
  assume N: "1 \<le> N"
  then show cap: "count_cap (Some N) xs = take (nat N) xs" for xs
    by (simp add: count_cap_take)
  then show "length (count_cap (Some N) xs) \<le> nat N"
    by simp
  assume "maxCount p = Some N"
  then show c: "pipeline_custom p raw = take (nat N) (filter (in_depth_bounds p) raw)"
    and n: "pipeline_named p raw
      = take (nat N) (filter (\<lambda>e. in_mag_bounds p e \<and> in_depth_bounds p e) raw)"
    by (simp_all add: pipeline_custom_filter pipeline_named_filter cap)
  show "length (pipeline_custom p raw) \<le> nat N" "length (pipeline_named p raw) \<le> nat N"
    unfolding c n by simp_all
next
  assume off: "maxCount p = None \<or> (\<exists>n. maxCount p = Some n \<and> n \<le> 0)"
  then show cap: "count_cap (maxCount p) xs = xs" for xs
    by (auto simp: count_cap_take)
  show "pipeline_custom p raw = filter (in_depth_bounds p) raw"
    "pipeline_named p raw = filter (\<lambda>e. in_mag_bounds p e \<and> in_depth_bounds p e) raw"
    by (simp_all add: pipeline_custom_filter pipeline_named_filter cap)
qed

theorem count_cap_is_prefix_witness:
  "earthquakes (snd (fetchEarthquakes utc
      ((range_props (ymd 2024 1 1) (end_of_day (ymd 2024 1 15)))\<lparr>maxCount := Some 2\<rparr>)
      (serving [quake ''a'' 3 10, quake ''z'' 7 900, quake ''b'' 9 20, quake ''c'' 1 30]) idle))
     = [quake ''a'' 3 10, quake ''b'' 9 20]
   \<and> pipeline_custom (feed_props\<lparr>maxCount := Some 2\<rparr>)
      [quake ''a'' 3 10, quake ''z'' 7 900, quake ''b'' 9 20, quake ''c'' 1 30]
     = [quake ''a'' 3 10, quake ''b'' 9 20]
   \<and> filter (in_depth_bounds (feed_props\<lparr>maxCount := Some 2\<rparr>))
      [quake ''a'' 3 10, quake ''z'' 7 900, quake ''b'' 9 20, quake ''c'' 1 30]
     = [quake ''a'' 3 10, quake ''b'' 9 20, quake ''c'' 1 30]
   \<and> pipeline_named (feed_props\<lparr>maxCount := Some 2\<rparr>)
      [quake ''c'' 1 30, quake ''a'' 3 10, quake ''z'' 7 10, quake ''b'' 4 20]
     = [quake ''c'' 1 30, quake ''a'' 3 10]
   \<and> pipeline_custom (feed_props\<lparr>maxCount := Some 0\<rparr>)
      [quake ''a'' 3 10, quake ''z'' 7 900, quake ''b'' 9 20, quake ''c'' 1 30]
     = [quake ''a'' 3 10, quake ''b'' 9 20, quake ''c'' 1 30]
   \<and> pipeline_named (feed_props\<lparr>maxCount := None\<rparr>)
      [quake ''c'' 1 30, quake ''a'' 3 10, quake ''z'' 7 10, quake ''b'' 4 20]
     = [quake ''c'' 1 30, quake ''a'' 3 10, quake ''b'' 4 20]"
  using
    count_cap_is_prefix [where N = 2 and xs = "[quake ''a'' 3 10]"
      and p = "feed_props\<lparr>maxCount := Some 2\<rparr>"
      and raw = "[quake ''a'' 3 10, quake ''z'' 7 900, quake ''b'' 9 20, quake ''c'' 1 30]"]
    count_cap_is_prefix [where N = 2 and xs = "[quake ''a'' 3 10]"
      and p = "feed_props\<lparr>maxCount := Some 0\<rparr>"
      and raw = "[quake ''a'' 3 10, quake ''z'' 7 900, quake ''b'' 9 20, quake ''c'' 1 30]"]
  by (simp add: fetch_chunks_step fetch_defs example_defs in_depth_bounds_def)

subsection \<open>The magnitude filter of the feed path\<close>

text \<open>
  Claim C5. Without a complete date range, and when the feed answers with the events
  \<open>raw\<close>, the retained events are those of \<open>raw\<close> that pass the magnitude
  filter, then the depth filter and the cap. The magnitude filter keeps an event
  exactly when its magnitude is a number between the lower bound (the minimum of
  \<^verbatim>\<open>magRange\<close>, or 0 without one) and the upper bound (the maximum of \<^verbatim>\<open>magRange\<close>,
  or \<^verbatim>\<open>minMagnitude\<close> without one).
\<close>

theorem named_window_magnitude_filter:
  assumes "fst (dateRange p) = None \<or> snd (dateRange p) = None"
    and "fetch 0 (feed_url (timeWindow p)) = Http True (Features (Some raw))"
  shows "earthquakes (snd (fetchEarthquakes z p fetch st))
      = count_cap (maxCount p) (depth_filter (depthRange p) (mag_filter p raw)) \<and>
    (e \<in> set (mag_filter p raw) \<longleftrightarrow>
      e \<in> set raw \<and>
      (\<exists>m. mag e = Some m \<and>
        (case magRange p of None \<Rightarrow> 0 | Some r \<Rightarrow> fst r) \<le> m \<and>
        m \<le> (case magRange p of None \<Rightarrow> minMagnitude p | Some r \<Rightarrow> snd r)))"
proof
  obtain ds de where dr: "dateRange p = (ds, de)"
    by (cases "dateRange p")
  with assms(1) have "ds = None \<or> de = None"
    by simp
  then have "fetchEarthquakes z p fetch st
      = finish (st\<lparr>loading := True, error := None\<rparr>) (pipeline_named p)
          (fetch_feed fetch (timeWindow p))"
    by (auto simp: fetchEarthquakes_def dr Let_def split: option.splits)
  moreover have "fetch_feed fetch (timeWindow p) = ([feed_url (timeWindow p)], Inr raw)"
    using assms(2) by (simp add: fetch_feed_def Let_def)
  ultimately show "earthquakes (snd (fetchEarthquakes z p fetch st))
      = count_cap (maxCount p) (depth_filter (depthRange p) (mag_filter p raw))"
    by (simp add: finish_def Let_def pipeline_named_def)
  show "e \<in> set (mag_filter p raw) \<longleftrightarrow>
      e \<in> set raw \<and>
      (\<exists>m. mag e = Some m \<and>
        (case magRange p of None \<Rightarrow> 0 | Some r \<Rightarrow> fst r) \<le> m \<and>
        m \<le> (case magRange p of None \<Rightarrow> minMagnitude p | Some r \<Rightarrow> snd r))"
    by (simp add: mag_filter_iff lowerMag_def upperMag_def)
qed

theorem named_window_magnitude_filter_witness:
  "earthquakes (snd (fetchEarthquakes utc (feed_props\<lparr>magRange := None\<rparr>)
      (serving [quake ''a'' 1.5 10, quake ''b'' 3 20, quake ''c'' 2 30]) idle))
     = [quake ''a'' 1.5 10, quake ''c'' 2 30]
   \<and> quake ''b'' 3 20 \<notin> set (mag_filter (feed_props\<lparr>magRange := None\<rparr>)
        [quake ''a'' 1.5 10, quake ''b'' 3 20, quake ''c'' 2 30])"
  using named_window_magnitude_filter [where p = "feed_props\<lparr>magRange := None\<rparr>"
      and fetch = "serving [quake ''a'' 1.5 10, quake ''b'' 3 20, quake ''c'' 2 30]"
      and raw = "[quake ''a'' 1.5 10, quake ''b'' 3 20, quake ''c'' 2 30]"
      and z = utc and st = idle and e = "quake ''b'' 3 20"]
  by (simp add: fetch_defs example_defs)

section \<open>The requests of the chunked loop\<close>




lemma chunk_list_single: "chunkSize \<le> 0 \<Longrightarrow> chunk_list z endDate chunkSize cur = [(cur, endDate)]"
  by (subst chunk_list.simps) (simp add: chunk_end_unfold)



lemma fetch_chunks_single:
  "chunkSize \<le> 0 \<Longrightarrow>
     fst (fetch_chunks z fetch lo hi endDate chunkSize cur acc n)
       = [Query (utc_day z cur) (utc_day z endDate) lo hi]"
  by (subst fetch_chunks_step) (simp add: Let_def chunk_end_def chunk_url_def)




lemma fetch_chunks_failures:
  "i < length (fst (fetch_chunks z fetch lo hi endDate chunkSize cur acc n)) \<Longrightarrow>
   request_failed (fetch (n + i) (fst (fetch_chunks z fetch lo hi endDate chunkSize cur acc n) ! i)) \<Longrightarrow>
   Suc i = length (fst (fetch_chunks z fetch lo hi endDate chunkSize cur acc n)) \<and>
   snd (fetch_chunks z fetch lo hi endDate chunkSize cur acc n)
     = Inl (failure_message (fetch (n + i) (fst (fetch_chunks z fetch lo hi endDate chunkSize cur acc n) ! i)))"
proof (induction cur acc n arbitrary: i rule: fetch_chunks_induct [where fetch = fetch and lo = lo
      and hi = hi and chunkSize = chunkSize and endDate = endDate and z = z])
  case (step cur acc n)
  define url where "url = chunk_url z lo hi (cur, chunk_end z chunkSize endDate cur)"
  define rest where "rest = fetch_chunks z fetch lo hi endDate chunkSize
      (next_start (chunk_end z chunkSize endDate cur)) (acc @ features_of (fetch n url)) (Suc n)"
  have unfold: "fetch_chunks z fetch lo hi endDate chunkSize cur acc n =
      (if request_failed (fetch n url) then ([url], Inl (failure_message (fetch n url)))
       else if chunkSize > 0 \<and> date_lt z (next_start (chunk_end z chunkSize endDate cur)) endDate
       then (url # fst rest, snd rest)
       else ([url], Inr (acc @ features_of (fetch n url))))"
    by (subst fetch_chunks_step) (simp add: Let_def url_def rest_def)
  show ?case
  proof (cases "request_failed (fetch n url)")
    case True
    with step.prems show ?thesis
      by (simp add: unfold)
  next
    case ok: False
    show ?thesis
    proof (cases "chunkSize > 0 \<and> date_lt z (next_start (chunk_end z chunkSize endDate cur)) endDate")
      case False
      with ok step.prems show ?thesis
        by (simp add: unfold)
    next
      case True
      with ok have run: "fetch_chunks z fetch lo hi endDate chunkSize cur acc n = (url # fst rest, snd rest)"
        by (simp add: unfold)
      show ?thesis
      proof (cases i)
        case 0
        with step.prems ok show ?thesis
          by (simp add: run)
      next
        case (Suc j)
        with step.prems have "j < length (fst rest)" "request_failed (fetch (Suc n + j) (fst rest ! j))"
          by (simp_all add: run)
        with step.IH [of j] ok True
        have r: "Suc j = length (fst rest)"
            "snd rest = Inl (failure_message (fetch (Suc n + j) (fst rest ! j)))"
          by (simp_all add: url_def rest_def)
        have e: "(url # fst rest) ! i = fst rest ! j" "n + i = Suc n + j"
          using Suc by simp_all
        have "Suc i = length (url # fst rest)"
          using r(1) Suc by simp
        then show ?thesis
          unfolding run fst_conv snd_conv e using r(2) by simp
      qed
    qed
  qed
qed

lemma finish_fst: "fst (finish st f r) = fst r"
  by (cases r) (auto simp: finish_def Let_def split: sum.splits)


lemma fetchEarthquakes_cases:
  "fetchEarthquakes z p fetch st =
     finish (st\<lparr>loading := True, error := None\<rparr>)
       (case dateRange p of (Some s, Some e) \<Rightarrow> pipeline_custom p | _ \<Rightarrow> pipeline_named p)
       (case dateRange p of
          (Some s, Some e) \<Rightarrow>
            fetch_chunks z fetch (lowerMag p) (upperMag p) e (if monthDiff s e > 1 then 1 else 0) s [] 0
        | _ \<Rightarrow> fetch_feed fetch (timeWindow p))"
  by (auto simp: fetchEarthquakes_def Let_def split: prod.splits option.splits)

lemma fetchEarthquakes_range:
  assumes "dateRange p = (Some startDate, Some endDate)"
  shows "fetchEarthquakes z p fetch st =
     finish (st\<lparr>loading := True, error := None\<rparr>) (pipeline_custom p)
       (fetch_chunks z fetch (lowerMag p) (upperMag p) endDate
          (if monthDiff startDate endDate > 1 then 1 else 0) startDate [] 0)"
  using assms by (simp add: fetchEarthquakes_cases)

lemma fetch_feed_failures:
  "i < length (fst (fetch_feed fetch w)) \<Longrightarrow>
   request_failed (fetch i (fst (fetch_feed fetch w) ! i)) \<Longrightarrow>
   Suc i = length (fst (fetch_feed fetch w)) \<and>
   snd (fetch_feed fetch w) = Inl (failure_message (fetch i (fst (fetch_feed fetch w) ! i)))"
  by (auto simp: fetch_feed_def Let_def request_failed_def failure_message_def
      split: response.splits body.splits if_splits)

subsection \<open>Evaluating the loop\<close>

text \<open>
  \<open>failing_at k fs\<close> is a remote service whose request number \<open>k\<close> (counted from
  zero) gets a response that is not ok, and every other one the events \<open>fs\<close>.
\<close>

definition failing_at :: "nat \<Rightarrow> feature list \<Rightarrow> remote" where
  "failing_at k fs n r = (if n = k then Http False (Features None) else Http True (Features (Some fs)))"

lemma jsdate_eval:
  "getFullYear \<lparr>local_day = \<lparr>civil_year = y, civil_month = m, civil_date = d\<rparr>, ms_in_day = s\<rparr> = y"
  "getMonth \<lparr>local_day = \<lparr>civil_year = y, civil_month = m, civil_date = d\<rparr>, ms_in_day = s\<rparr> = m"
  "getDate \<lparr>local_day = \<lparr>civil_year = y, civil_month = m, civil_date = d\<rparr>, ms_in_day = s\<rparr> = d"
  "local_time \<lparr>local_day = \<lparr>civil_year = y, civil_month = m, civil_date = d\<rparr>, ms_in_day = s\<rparr>
     = make_day y m d * msPerDay + s"
  "setMonth \<lparr>local_day = \<lparr>civil_year = y, civil_month = m, civil_date = d\<rparr>, ms_in_day = s\<rparr> k
     = \<lparr>local_day = norm_date y k d, ms_in_day = s\<rparr>"
  "setDate \<lparr>local_day = \<lparr>civil_year = y, civil_month = m, civil_date = d\<rparr>, ms_in_day = s\<rparr> k
     = \<lparr>local_day = norm_date y m k, ms_in_day = s\<rparr>"
  "utc_day z \<lparr>local_day = \<lparr>civil_year = y, civil_month = m, civil_date = d\<rparr>, ms_in_day = s\<rparr>
     = norm_date y m (d + (s - LocalTZA z
         \<lparr>local_day = \<lparr>civil_year = y, civil_month = m, civil_date = d\<rparr>, ms_in_day = s\<rparr>) div msPerDay)"
  by (simp_all add: getFullYear_def getMonth_def getDate_def local_time_def day_number_def
      setMonth_def setDate_def utc_day_def)

lemmas date_eval = jsdate_eval next_start_def date_lt_def date_gt_def chunk_end_unfold
  getTime_def LocalTZA_def msPerDay_def msPerHour_def
  make_day_def day_from_year_def days_before_month_def days_in_month_def is_leap_def
  norm_date.simps ymd_def day_def end_of_day_def utc_def kolkata_def new_york_def london_def

lemmas run_eval = fetchEarthquakes_cases finish_def fetch_chunks_unfold chunk_url_def monthDiff_def
  lowerMag_def upperMag_def request_failed_def failure_message_def features_of_def
  pipeline_custom_def depth_filter_def count_cap_def
  failing_at_def serving_def feed_props_def range_props_def quake_def idle_def date_eval

lemma epoch_time: "getTime utc (ymd 1970 1 1) = 0"
  by (simp add: date_eval)

subsection \<open>A failed request\<close>

text \<open>
  Claim C7. When a request of a fetch fails (the transport rejects, the response is
  not ok, or its body does not parse), it is the last request issued: nothing is
  fetched after it and it is not tried again. The component ends with the failure's
  message as its error, with loading off, and with the events and the reported count
  it had before the fetch: what the earlier chunks returned is dropped.
\<close>

theorem failed_request_aborts_fetch:
  assumes run: "fetchEarthquakes z p fetch st = (reqs, st')"
    and i: "i < length reqs"
    and failed: "request_failed (fetch i (reqs ! i))"
  shows "Suc i = length reqs \<and>
    error st' = Some (failure_message (fetch i (reqs ! i))) \<and>
    earthquakes st' = earthquakes st \<and>
    reported_count st' = reported_count st \<and>
    loading st' = False"
proof -
  define r where "r = (case dateRange p of
      (Some s, Some e) \<Rightarrow>
        fetch_chunks z fetch (lowerMag p) (upperMag p) e (if monthDiff s e > 1 then 1 else 0) s [] 0
    | _ \<Rightarrow> fetch_feed fetch (timeWindow p))"
  define f where "f = (case dateRange p of (Some s, Some e) \<Rightarrow> pipeline_custom p
    | _ \<Rightarrow> pipeline_named p)"
  have fe: "fetchEarthquakes z p fetch st = finish (st\<lparr>loading := True, error := None\<rparr>) f r"
    unfolding r_def f_def by (rule fetchEarthquakes_cases)
  with run have reqs: "reqs = fst r"
    by (metis finish_fst fst_conv)
  have "Suc i = length (fst r) \<and> snd r = Inl (failure_message (fetch i (fst r ! i)))"
  proof (cases "\<exists>s e. dateRange p = (Some s, Some e)")
    case True
    then obtain s e where "dateRange p = (Some s, Some e)"
      by blast
    then have "r = fetch_chunks z fetch (lowerMag p) (upperMag p) e
        (if monthDiff s e > 1 then 1 else 0) s [] 0"
      by (simp add: r_def)
    then show ?thesis
      using fetch_chunks_failures [of i z fetch "lowerMag p" "upperMag p" e
          "if monthDiff s e > 1 then 1 else 0" s "[]" 0] i failed
      by (simp add: reqs)
  next
    case False
    then have "r = fetch_feed fetch (timeWindow p)"
      by (auto simp: r_def split: prod.splits option.splits)
    then show ?thesis
      using fetch_feed_failures [of i fetch "timeWindow p"] i failed
      by (simp add: reqs)
  qed
  then have "Suc i = length reqs" "r = (reqs, Inl (failure_message (fetch i (reqs ! i))))"
    by (simp_all add: reqs prod_eq_iff)
  with run fe show ?thesis
    by (auto simp: finish_def)
qed

theorem failed_request_aborts_fetch_witness:
  "fetchEarthquakes utc (range_props (ymd 2024 1 1) (end_of_day (ymd 2024 4 10)))
      (failing_at 1 [quake ''new'' 3 10])
      (idle\<lparr>earthquakes := [quake ''old'' 2 5], reported_count := Some 1\<rparr>)
    = ([Query (day 2024 1 1) (day 2024 2 1) 0 5, Query (day 2024 2 2) (day 2024 3 2) 0 5],
       \<lparr>earthquakes = [quake ''old'' 2 5], loading = False,
        error = Some ''Failed to fetch earthquake data'', reported_count = Some 1\<rparr>)
   \<and> request_failed (failing_at 1 [quake ''new'' 3 10] 1 (Query (day 2024 2 2) (day 2024 3 2) 0 5))"
proof -
  have run: "fst (fetchEarthquakes utc (range_props (ymd 2024 1 1) (end_of_day (ymd 2024 4 10)))
      (failing_at 1 [quake ''new'' 3 10])
      (idle\<lparr>earthquakes := [quake ''old'' 2 5], reported_count := Some 1\<rparr>))
    = [Query (day 2024 1 1) (day 2024 2 1) 0 5, Query (day 2024 2 2) (day 2024 3 2) 0 5]"
    by (simp add: run_eval)
  obtain st' where st': "fetchEarthquakes utc (range_props (ymd 2024 1 1) (end_of_day (ymd 2024 4 10)))
      (failing_at 1 [quake ''new'' 3 10])
      (idle\<lparr>earthquakes := [quake ''old'' 2 5], reported_count := Some 1\<rparr>)
    = ([Query (day 2024 1 1) (day 2024 2 1) 0 5, Query (day 2024 2 2) (day 2024 3 2) 0 5], st')"
    using run by (metis prod.collapse)
  have failed: "request_failed (failing_at 1 [quake ''new'' 3 10] 1
      ([Query (day 2024 1 1) (day 2024 2 1) 0 5, Query (day 2024 2 2) (day 2024 3 2) 0 5] ! 1))"
    by (simp add: failing_at_def request_failed_def)
  have "st' = \<lparr>earthquakes = [quake ''old'' 2 5], loading = False,
        error = Some ''Failed to fetch earthquake data'', reported_count = Some 1\<rparr>"
    using failed_request_aborts_fetch [OF st' _ failed]
    by (cases st') (simp add: failing_at_def failure_message_def idle_def)
  with st' failed show ?thesis
    by simp
qed

subsection \<open>How far the cursor moves\<close>













subsection \<open>Termination of the chunked loop\<close>



subsection \<open>A range of at most one month\<close>

text \<open>
  When the calendar months of the two ends of a range differ by at most one, the
  fetch issues exactly one request, and it carries the days that \<^verbatim>\<open>toISOString\<close>
  shows for the start and for the end of the range: their calendar days in UTC. These
  are the days of the range itself when the time of day less the offset of the zone
  stays within the day, as for every time of day in UTC.
\<close>

lemma single_request_for_short_range:
  assumes "dateRange p = (Some startDate, Some endDate)"
    and "monthDiff startDate endDate \<le> 1"
  shows "fst (fetchEarthquakes z p fetch st)
    = [Query (utc_day z startDate) (utc_day z endDate) (lowerMag p) (upperMag p)]"
  using assms by (simp add: fetchEarthquakes_range finish_fst fetch_chunks_single)

lemma utc_day_in_utc:
  assumes "0 \<le> ms_in_day t" "ms_in_day t < msPerDay" "valid_date (local_day t)"
  shows "utc_day utc t = local_day t"
  using assms by (intro utc_day_local) (simp_all add: LocalTZA_def utc_def)

text \<open>
  Claim C3 does not hold of the component outside UTC. The filter panel passes the
  local midnight of the first day picked and the last millisecond of the last day
  picked, and the component prints both with \<^verbatim>\<open>toISOString\<close>. For the range from
  2024-01-01 to 2024-01-15, whose months do not differ, the one request carries
  \<^verbatim>\<open>starttime=2023-12-31\<close> in India, where local midnight is 18:30 of the day before
  in UTC, and \<^verbatim>\<open>endtime=2024-01-16\<close> in New York, where the end of the local day is
  04:59 of the next day in UTC; in UTC it carries the days of the range.
\<close>

theorem short_range_sends_utc_days:
  "fst (fetchEarthquakes kolkata (range_props (ymd 2024 1 1) (end_of_day (ymd 2024 1 15)))
      (serving []) idle)
     = [Query (day 2023 12 31) (day 2024 1 15) 0 5]
   \<and> time_params (Query (day 2023 12 31) (day 2024 1 15) 0 5)
     = ''&starttime=2023-12-31&endtime=2024-01-15''
   \<and> fst (fetchEarthquakes new_york (range_props (ymd 2024 1 1) (end_of_day (ymd 2024 1 15)))
      (serving []) idle)
     = [Query (day 2024 1 1) (day 2024 1 16) 0 5]
   \<and> time_params (Query (day 2024 1 1) (day 2024 1 16) 0 5)
     = ''&starttime=2024-01-01&endtime=2024-01-16''
   \<and> fst (fetchEarthquakes utc (range_props (ymd 2024 1 1) (end_of_day (ymd 2024 1 15)))
      (serving []) idle)
     = [Query (day 2024 1 1) (day 2024 1 15) 0 5]
   \<and> local_day (ymd 2024 1 1) = day 2024 1 1
   \<and> local_day (end_of_day (ymd 2024 1 15)) = day 2024 1 15
   \<and> monthDiff (ymd 2024 1 1) (end_of_day (ymd 2024 1 15)) = 0"
proof -
  have "time_params (Query (day 2023 12 31) (day 2024 1 15) 0 5)
      = ''&starttime=2023-12-31&endtime=2024-01-15''"
    "time_params (Query (day 2024 1 1) (day 2024 1 16) 0 5)
      = ''&starttime=2024-01-01&endtime=2024-01-16''"
    by (simp_all add: time_params_def iso_day_def pad4_def pad2_def digit_def day_def)
  moreover have "fst (fetchEarthquakes kolkata (range_props (ymd 2024 1 1) (end_of_day (ymd 2024 1 15)))
      (serving []) idle) = [Query (day 2023 12 31) (day 2024 1 15) 0 5]"
    "fst (fetchEarthquakes new_york (range_props (ymd 2024 1 1) (end_of_day (ymd 2024 1 15)))
      (serving []) idle) = [Query (day 2024 1 1) (day 2024 1 16) 0 5]"
    "fst (fetchEarthquakes utc (range_props (ymd 2024 1 1) (end_of_day (ymd 2024 1 15)))
      (serving []) idle) = [Query (day 2024 1 1) (day 2024 1 15) 0 5]"
    by (simp_all add: run_eval)
  moreover have "local_day (ymd 2024 1 1) = day 2024 1 1"
    "local_day (end_of_day (ymd 2024 1 15)) = day 2024 1 15"
    "monthDiff (ymd 2024 1 1) (end_of_day (ymd 2024 1 15)) = 0"
    by (simp_all add: ymd_def end_of_day_def monthDiff_def getFullYear_def getMonth_def day_def)
  ultimately show ?thesis
    by simp
qed

subsection \<open>The requests of a range of more than one month\<close>






section \<open>Numbers\<close>

text \<open>
  A JavaScript number is a double: a real number that the format can represent, one
  of the two infinities, or \<^verbatim>\<open>NaN\<close>. \<open>ge\<close> and \<open>lt\<close> are the comparisons \<^verbatim>\<open>>=\<close> and
  \<^verbatim>\<open><\<close>, which are false whenever an operand is \<^verbatim>\<open>NaN\<close>, and \<open>minus_number\<close> is the
  subtraction of the comparator of a sort, of which the sort reads the sign alone
  (rounding the difference of two doubles keeps its sign).
\<close>

datatype number = NaN | NegInfinity | Finite real | Infinity

fun ge :: "number \<Rightarrow> number \<Rightarrow> bool" where
  "ge NaN y = False"
| "ge x NaN = False"
| "ge Infinity y = True"
| "ge x NegInfinity = True"
| "ge NegInfinity y = False"
| "ge x Infinity = False"
| "ge (Finite a) (Finite b) = (a \<ge> b)"

fun lt :: "number \<Rightarrow> number \<Rightarrow> bool" where
  "lt NaN y = False"
| "lt x NaN = False"
| "lt x NegInfinity = False"
| "lt NegInfinity y = True"
| "lt Infinity y = False"
| "lt x Infinity = True"
| "lt (Finite a) (Finite b) = (a < b)"

fun minus_number :: "number \<Rightarrow> number \<Rightarrow> number" where
  "minus_number NaN y = NaN"
| "minus_number x NaN = NaN"
| "minus_number (Finite a) (Finite b) = Finite (a - b)"
| "minus_number Infinity Infinity = NaN"
| "minus_number NegInfinity NegInfinity = NaN"
| "minus_number Infinity y = Infinity"
| "minus_number NegInfinity y = NegInfinity"
| "minus_number x Infinity = NegInfinity"
| "minus_number x NegInfinity = Infinity"

section \<open>Great-circle distance\<close>

text \<open>
  \<^verbatim>\<open>haversineKm\<close> works in double-precision arithmetic: every operation gives the
  exact result rounded to a double, and \<^verbatim>\<open>Math.sin\<close>, \<^verbatim>\<open>Math.cos\<close> and \<^verbatim>\<open>Math.atan2\<close>
  give the approximations of the engine. The model takes the rounding, these three
  functions and the constant \<^verbatim>\<open>Math.PI\<close> from an environment \<open>u\<close>, and follows the
  source operation by operation; the coordinates and the intermediate results are
  finite doubles, read as real numbers (there is no overflow in sight for coordinates
  in degrees). \<^verbatim>\<open>Math.sqrt\<close> of a negative number is \<^verbatim>\<open>NaN\<close>, and \<^verbatim>\<open>NaN\<close> goes through
  \<^verbatim>\<open>Math.atan2\<close> and the multiplications, so that the result is a number or \<^verbatim>\<open>NaN\<close>.
  \<open>hav_a\<close> is the quantity \<^verbatim>\<open>a\<close> of the source.
\<close>

record arith =
  rnd :: "real \<Rightarrow> real"
  Math_sin :: "real \<Rightarrow> real"
  Math_cos :: "real \<Rightarrow> real"
  Math_atan2 :: "real \<Rightarrow> real \<Rightarrow> real"
  Math_PI :: real

definition fadd :: "arith \<Rightarrow> real \<Rightarrow> real \<Rightarrow> real" where
  "fadd u x y = rnd u (x + y)"

definition fsub :: "arith \<Rightarrow> real \<Rightarrow> real \<Rightarrow> real" where
  "fsub u x y = rnd u (x - y)"

definition fmul :: "arith \<Rightarrow> real \<Rightarrow> real \<Rightarrow> real" where
  "fmul u x y = rnd u (x * y)"

definition fdiv :: "arith \<Rightarrow> real \<Rightarrow> real \<Rightarrow> real" where
  "fdiv u x y = rnd u (x / y)"

definition Math_sqrt :: "arith \<Rightarrow> real \<Rightarrow> number" where
  "Math_sqrt u x = (if x < 0 then NaN else Finite (rnd u (sqrt x)))"

definition hav_a :: "arith \<Rightarrow> real \<Rightarrow> real \<Rightarrow> real \<Rightarrow> real \<Rightarrow> real" where
  "hav_a u lat1 lon1 lat2 lon2 =
     (let dLat = fdiv u (fmul u (fsub u lat2 lat1) (Math_PI u)) 180;
          dLon = fdiv u (fmul u (fsub u lon2 lon1) (Math_PI u)) 180
      in fadd u
           (fmul u (Math_sin u (fdiv u dLat 2)) (Math_sin u (fdiv u dLat 2)))
           (fmul u
              (fmul u
                 (fmul u (Math_cos u (fdiv u (fmul u lat1 (Math_PI u)) 180))
                         (Math_cos u (fdiv u (fmul u lat2 (Math_PI u)) 180)))
                 (Math_sin u (fdiv u dLon 2)))
              (Math_sin u (fdiv u dLon 2))))"

definition haversineKm :: "arith \<Rightarrow> real \<Rightarrow> real \<Rightarrow> real \<Rightarrow> real \<Rightarrow> number" where
  "haversineKm u lat1 lon1 lat2 lon2 =
     (let R = 6371;
          a = hav_a u lat1 lon1 lat2 lon2
      in case (Math_sqrt u a, Math_sqrt u (fsub u 1 a)) of
           (Finite s, Finite t) \<Rightarrow> Finite (fmul u R (fmul u 2 (Math_atan2 u s t)))
         | _ \<Rightarrow> NaN)"

text \<open>
  What every engine guarantees of its arithmetic at the values that the distance from
  a point to itself meets: 0 and 1 are doubles, which rounding leaves as they are,
  \<^verbatim>\<open>Math.sin(0)\<close> is 0 and \<^verbatim>\<open>Math.atan2(0, 1)\<close> is 0.
\<close>

definition exact_at_zero :: "arith \<Rightarrow> bool" where
  "exact_at_zero u =
     (rnd u 0 = 0 \<and> rnd u 1 = 1 \<and> Math_sin u 0 = 0 \<and> Math_atan2 u 0 1 = 0)"

text \<open>
  The arithmetic of the real numbers, without rounding: \<open>atan2\<close> is the angle of the
  point \<open>(x, y)\<close>, as \<^verbatim>\<open>Math.atan2\<close> approximates it.
\<close>

definition atan2 :: "real \<Rightarrow> real \<Rightarrow> real" where
  "atan2 y x =
     (if x > 0 then arctan (y / x)
      else if x < 0 then (if y \<ge> 0 then arctan (y / x) + pi else arctan (y / x) - pi)
      else if y > 0 then pi / 2
      else if y < 0 then - (pi / 2)
      else 0)"

definition exact :: arith where
  "exact = \<lparr>rnd = (\<lambda>x. x), Math_sin = sin, Math_cos = cos, Math_atan2 = atan2, Math_PI = pi\<rparr>"

lemma exact_at_zero_exact: "exact_at_zero exact"
  by (simp add: exact_at_zero_def exact_def atan2_def)

lemma haversineKm_cases:
  "haversineKm u lat1 lon1 lat2 lon2 = NaN \<or> (\<exists>d. haversineKm u lat1 lon1 lat2 lon2 = Finite d)"
  by (auto simp: haversineKm_def Let_def Math_sqrt_def)

lemma haversineKm_nan:
  "haversineKm u lat1 lon1 lat2 lon2 = NaN \<longleftrightarrow>
     hav_a u lat1 lon1 lat2 lon2 < 0 \<or> rnd u (1 - hav_a u lat1 lon1 lat2 lon2) < 0"
  by (auto simp: haversineKm_def Let_def Math_sqrt_def fsub_def)

lemma hav_a_same: "exact_at_zero u \<Longrightarrow> hav_a u lat1 lon1 lat1 lon1 = 0"
  by (simp add: hav_a_def Let_def exact_at_zero_def fadd_def fsub_def fmul_def fdiv_def)

lemma haversineKm_same: "exact_at_zero u \<Longrightarrow> haversineKm u lat1 lon1 lat1 lon1 = Finite 0"
  by (simp add: haversineKm_def Let_def hav_a_same Math_sqrt_def fsub_def fmul_def)
    (simp add: exact_at_zero_def)

subsection \<open>The distance without rounding\<close>

lemma hav_a_exact:
  "hav_a exact lat1 lon1 lat2 lon2 =
     sin ((lat2 - lat1) * pi / 180 / 2) * sin ((lat2 - lat1) * pi / 180 / 2) +
     cos (lat1 * pi / 180) * cos (lat2 * pi / 180) *
       sin ((lon2 - lon1) * pi / 180 / 2) * sin ((lon2 - lon1) * pi / 180 / 2)"
  by (simp add: hav_a_def Let_def exact_def fadd_def fsub_def fmul_def fdiv_def)

lemma sin_half_squared: "sin (x / 2) * sin (x / 2) = (1 - cos x) / 2" for x :: real
  using cos_double_sin [of "x / 2"] by (simp add: power2_eq_square)

lemma hav_a_dot:
  "hav_a exact lat1 lon1 lat2 lon2 =
     (1 - (sin (lat1 * pi / 180) * sin (lat2 * pi / 180) +
           cos (lat1 * pi / 180) * cos (lat2 * pi / 180) * cos ((lon2 - lon1) * pi / 180))) / 2"
proof -
  have d: "(lat2 - lat1) * pi / 180 = lat2 * pi / 180 - lat1 * pi / 180"
    by (simp add: algebra_simps diff_divide_distrib)
  have "sin ((lat2 - lat1) * pi / 180 / 2) * sin ((lat2 - lat1) * pi / 180 / 2)
      = (1 - (cos (lat2 * pi / 180) * cos (lat1 * pi / 180)
            + sin (lat2 * pi / 180) * sin (lat1 * pi / 180))) / 2"
    unfolding sin_half_squared d cos_diff ..
  moreover have "cos (lat1 * pi / 180) * cos (lat2 * pi / 180)
        * sin ((lon2 - lon1) * pi / 180 / 2) * sin ((lon2 - lon1) * pi / 180 / 2)
      = cos (lat1 * pi / 180) * cos (lat2 * pi / 180) * ((1 - cos ((lon2 - lon1) * pi / 180)) / 2)"
    using sin_half_squared [of "(lon2 - lon1) * pi / 180"] by (simp add: mult.assoc)
  ultimately show ?thesis
    unfolding hav_a_exact by (simp add: algebra_simps)
qed

lemma product_le_half_squares: "\<bar>x * y\<bar> \<le> (x * x + y * y) / 2" for x y :: real
proof -
  have "0 \<le> (\<bar>x\<bar> - \<bar>y\<bar>) * (\<bar>x\<bar> - \<bar>y\<bar>)"
    by simp
  also have "\<dots> = x * x + y * y - 2 * \<bar>x * y\<bar>"
    by (simp add: algebra_simps abs_mult)
  finally show ?thesis
    by simp
qed

lemma unit_dot_bound:
  fixes p q k :: real
  assumes "\<bar>k\<bar> \<le> 1"
  shows "\<bar>sin p * sin q + cos p * cos q * k\<bar> \<le> 1"
proof -
  have "\<bar>cos p * cos q * k\<bar> = \<bar>cos p * cos q\<bar> * \<bar>k\<bar>"
    by (rule abs_mult)
  also have "\<dots> \<le> \<bar>cos p * cos q\<bar>"
    using assms by (simp add: mult_left_le)
  finally have "\<bar>sin p * sin q + cos p * cos q * k\<bar> \<le> \<bar>sin p * sin q\<bar> + \<bar>cos p * cos q\<bar>"
    by linarith
  then have bound: "\<bar>sin p * sin q + cos p * cos q * k\<bar> \<le> \<bar>sin p * sin q\<bar> + \<bar>cos p * cos q\<bar>" .
  define sp sq cp cq where "sp = sin p * sin p" and "sq = sin q * sin q"
    and "cp = cos p * cos p" and "cq = cos q * cos q"
  define ss cc where "ss = \<bar>sin p * sin q\<bar>" and "cc = \<bar>cos p * cos q\<bar>"
  have "ss \<le> (sp + sq) / 2" "cc \<le> (cp + cq) / 2"
    unfolding sp_def sq_def cp_def cq_def ss_def cc_def by (rule product_le_half_squares)+
  moreover have "cp + sp = 1" "cq + sq = 1"
    unfolding sp_def sq_def cp_def cq_def by simp_all
  ultimately have "ss + cc \<le> 1"
    by argo
  with bound show ?thesis
    unfolding ss_def cc_def by (rule order_trans)
qed

lemma hav_a_range: "0 \<le> hav_a exact lat1 lon1 lat2 lon2" "hav_a exact lat1 lon1 lat2 lon2 \<le> 1"
  using unit_dot_bound [of "cos ((lon2 - lon1) * pi / 180)" "lat1 * pi / 180" "lat2 * pi / 180"]
  unfolding hav_a_dot by simp_all

lemma hav_a_sym: "hav_a exact lat1 lon1 lat2 lon2 = hav_a exact lat2 lon2 lat1 lon1"
proof -
  have "(lon2 - lon1) * pi / 180 = - ((lon1 - lon2) * pi / 180)"
    by (simp add: left_diff_distrib diff_divide_distrib)
  then have "cos ((lon2 - lon1) * pi / 180) = cos ((lon1 - lon2) * pi / 180)"
    by (simp only: cos_minus)
  then show ?thesis
    unfolding hav_a_dot by (simp add: mult.commute)
qed

lemma atan2_nonneg: "0 \<le> y \<Longrightarrow> 0 \<le> x \<Longrightarrow> 0 \<le> atan2 y x \<and> atan2 y x \<le> pi / 2"
  using arctan_ubound [of "y / x"] by (auto simp: atan2_def less_imp_le)

lemma haversineKm_exact:
  "haversineKm exact lat1 lon1 lat2 lon2 =
     Finite (6371 * (2 * atan2 (sqrt (hav_a exact lat1 lon1 lat2 lon2))
                               (sqrt (1 - hav_a exact lat1 lon1 lat2 lon2))))"
  using hav_a_range [of lat1 lon1 lat2 lon2]
  by (simp add: haversineKm_def Let_def Math_sqrt_def fsub_def fmul_def)
    (simp add: exact_def)

text \<open>
  Without rounding the distance is the haversine formula on a sphere of radius 6371:
  it is a number between 0 and half the circumference, the same in both directions,
  a quarter of the circumference between two points of the equator 90 degrees apart
  and half of it between two that are 180 degrees apart.
\<close>

lemma haversineKm_exact_properties:
  "\<exists>d. haversineKm exact lat1 lon1 lat2 lon2 = Finite d \<and> 0 \<le> d \<and> d \<le> 6371 * pi"
  "haversineKm exact lat1 lon1 lat2 lon2 = haversineKm exact lat2 lon2 lat1 lon1"
proof -
  have "0 \<le> atan2 (sqrt (hav_a exact lat1 lon1 lat2 lon2)) (sqrt (1 - hav_a exact lat1 lon1 lat2 lon2))
      \<and> atan2 (sqrt (hav_a exact lat1 lon1 lat2 lon2)) (sqrt (1 - hav_a exact lat1 lon1 lat2 lon2))
        \<le> pi / 2"
    using hav_a_range [of lat1 lon1 lat2 lon2] by (intro atan2_nonneg) simp_all
  then show "\<exists>d. haversineKm exact lat1 lon1 lat2 lon2 = Finite d \<and> 0 \<le> d \<and> d \<le> 6371 * pi"
    unfolding haversineKm_exact by simp
  show "haversineKm exact lat1 lon1 lat2 lon2 = haversineKm exact lat2 lon2 lat1 lon1"
    unfolding haversineKm_exact hav_a_sym [of lat1 lon1 lat2 lon2] ..
qed

lemma quarter_turn: "haversineKm exact 0 0 0 90 = Finite (6371 * pi / 2)"
proof -
  have "sin (pi / 4) * sin (pi / 4) = 1 / 2"
    by (simp add: sin_45 flip: power2_eq_square) (simp add: power2_eq_square)
  then have a: "hav_a exact 0 0 0 90 = 1 / 2"
    by (simp add: hav_a_exact)
  have "atan2 (sqrt (1 / 2)) (sqrt (1 / 2)) = pi / 4"
    by (simp add: atan2_def arctan_one)
  then show ?thesis
    unfolding haversineKm_exact a by simp
qed

lemma half_turn: "haversineKm exact 0 0 0 180 = Finite (6371 * pi)"
proof -
  have a: "hav_a exact 0 0 0 180 = 1"
    by (simp add: hav_a_exact)
  show ?thesis
    unfolding haversineKm_exact a by (simp add: atan2_def)
qed

lemma antipodes: "haversineKm exact 12 34 (- 12) (- 146) = Finite (6371 * pi)"
proof -
  have "cos ((- 146 - 34) * pi / 180) = - 1"
    by simp
  moreover have "sin (- 12 * pi / 180) = - sin (12 * pi / 180)"
    by (simp only: sin_minus minus_mult_left [symmetric] minus_divide_left [symmetric])
  moreover have "cos (- 12 * pi / 180) = cos (12 * pi / 180)"
    by (simp only: cos_minus minus_mult_left [symmetric] minus_divide_left [symmetric])
  moreover have "sin (12 * pi / 180) * sin (12 * pi / 180) + cos (12 * pi / 180) * cos (12 * pi / 180) = 1"
    by (simp flip: power2_eq_square)
  ultimately have a: "hav_a exact 12 34 (- 12) (- 146) = 1"
    unfolding hav_a_dot by (simp add: algebra_simps)
  show ?thesis
    unfolding haversineKm_exact a by (simp add: atan2_def)
qed

text \<open>
  Claim C9 does not hold of the component, whose arithmetic is that of doubles. The
  distance is \<^verbatim>\<open>NaN\<close>, which is not at least 0, exactly when the computed \<^verbatim>\<open>a\<close> is
  negative or the computed \<^verbatim>\<open>1 - a\<close> is: then a square root is taken of a negative
  number. Without rounding neither happens, \<^verbatim>\<open>a\<close> being between 0 and 1: the distance
  is then a number between 0 and half the circumference of a sphere of radius 6371,
  the same in both directions, 0 from a point to itself and half the circumference
  between antipodes. With rounding the sum \<^verbatim>\<open>a\<close> can come out above 1 for points that
  are antipodes or nearly so, as it does in double arithmetic for the points
  (12, 34) and (-12, -146), and the component has no guard for it.
\<close>

theorem haversine_not_a_number:
  "(haversineKm u lat1 lon1 lat2 lon2 = NaN \<longleftrightarrow>
      hav_a u lat1 lon1 lat2 lon2 < 0 \<or> fsub u 1 (hav_a u lat1 lon1 lat2 lon2) < 0) \<and>
   \<not> ge NaN (Finite 0) \<and>
   (\<exists>d. haversineKm exact lat1 lon1 lat2 lon2 = Finite d \<and> 0 \<le> d \<and> d \<le> 6371 * pi) \<and>
   haversineKm exact lat1 lon1 lat2 lon2 = haversineKm exact lat2 lon2 lat1 lon1 \<and>
   haversineKm exact lat1 lon1 lat1 lon1 = Finite 0 \<and>
   haversineKm exact 12 34 (- 12) (- 146) = Finite (6371 * pi)"
proof (intro conjI)
  show "haversineKm u lat1 lon1 lat2 lon2 = NaN \<longleftrightarrow>
      hav_a u lat1 lon1 lat2 lon2 < 0 \<or> fsub u 1 (hav_a u lat1 lon1 lat2 lon2) < 0"
    by (simp add: haversineKm_nan fsub_def)
  show "\<not> ge NaN (Finite 0)"
    by simp
  show "\<exists>d. haversineKm exact lat1 lon1 lat2 lon2 = Finite d \<and> 0 \<le> d \<and> d \<le> 6371 * pi"
    by (rule haversineKm_exact_properties)
  show "haversineKm exact lat1 lon1 lat2 lon2 = haversineKm exact lat2 lon2 lat1 lon1"
    by (rule haversineKm_exact_properties)
  show "haversineKm exact lat1 lon1 lat1 lon1 = Finite 0"
    using exact_at_zero_exact by (rule haversineKm_same)
  show "haversineKm exact 12 34 (- 12) (- 146) = Finite (6371 * pi)"
    by (rule antipodes)
qed

section \<open>The nearest events\<close>

text \<open>
  The rows of \<^verbatim>\<open>InsightsTable\<close> (and the list that the click handler of a marker
  stores): each candidate with its distance to the base event, sorted by a comparator
  that subtracts the distances, cut to ten. \<^verbatim>\<open>Array.prototype.sort\<close> reads a comparator
  result that is \<^verbatim>\<open>NaN\<close> as 0 (\<open>SortCompare\<close>) and is stable; with a comparator that
  orders by a key its result is determined: \<open>js_sort\<close> inserts each element, from the
  last to the first, before the first element that it does not compare greater than.
  When a distance is \<^verbatim>\<open>NaN\<close> the comparator is not consistent, and the order that an
  engine gives is its own; the order of the model is then one of the possible ones.
\<close>

definition SortCompare :: "('a \<Rightarrow> 'a \<Rightarrow> number) \<Rightarrow> 'a \<Rightarrow> 'a \<Rightarrow> number" where
  "SortCompare comparefn x y = (case comparefn x y of NaN \<Rightarrow> Finite 0 | v \<Rightarrow> v)"

fun insert_sorted :: "('a \<Rightarrow> 'a \<Rightarrow> number) \<Rightarrow> 'a \<Rightarrow> 'a list \<Rightarrow> 'a list" where
  "insert_sorted cmp x [] = [x]"
| "insert_sorted cmp x (y # ys) =
     (if ge (Finite 0) (SortCompare cmp x y) then x # y # ys else y # insert_sorted cmp x ys)"

definition js_sort :: "('a \<Rightarrow> 'a \<Rightarrow> number) \<Rightarrow> 'a list \<Rightarrow> 'a list" where
  "js_sort cmp xs = foldr (insert_sorted cmp) xs []"

definition distKm :: "arith \<Rightarrow> feature \<Rightarrow> feature \<Rightarrow> number" where
  "distKm u base e = haversineKm u (lat base) (lon base) (lat e) (lon e)"

definition ranking :: "arith \<Rightarrow> feature \<Rightarrow> feature list \<Rightarrow> (feature \<times> number) list" where
  "ranking u base candidates =
     js_sort (\<lambda>a b. minus_number (snd a) (snd b)) (map (\<lambda>e. (e, distKm u base e)) candidates)"

definition insights_rows :: "arith \<Rightarrow> feature \<Rightarrow> feature list \<Rightarrow> (feature \<times> number) list" where
  "insights_rows u base candidates = take 10 (ranking u base candidates)"

definition nearest_from_api :: "arith \<Rightarrow> feature \<Rightarrow> feature list \<Rightarrow> feature list" where
  "nearest_from_api u base feats = map fst (take 10 (ranking u base feats))"

text \<open>
  The sort is a permutation, whatever the distances are; when they are all numbers
  it is the stable sort by the distance.
\<close>

lemma mset_insert_sorted: "mset (insert_sorted cmp x ys) = add_mset x (mset ys)"
  by (induction ys) simp_all

lemma mset_js_sort: "mset (js_sort cmp xs) = mset xs"
  by (induction xs) (simp_all add: js_sort_def mset_insert_sorted)

definition finite_key :: "'a \<times> number \<Rightarrow> real" where
  "finite_key r = (case snd r of Finite x \<Rightarrow> x | _ \<Rightarrow> 0)"

definition all_finite :: "('a \<times> number) list \<Rightarrow> bool" where
  "all_finite rs = (\<forall>r \<in> set rs. \<exists>x. snd r = Finite x)"

lemma insert_sorted_key:
  "all_finite (x # ys) \<Longrightarrow>
   insert_sorted (\<lambda>a b. minus_number (snd a) (snd b)) x ys = insort_key finite_key x ys"
proof (induction ys)
  case Nil
  show ?case by simp
next
  case (Cons y ys)
  from Cons.prems obtain a b where ab: "snd x = Finite a" "snd y = Finite b"
    by (auto simp: all_finite_def)
  from Cons.prems have "all_finite (x # ys)"
    by (simp add: all_finite_def)
  with Cons.IH ab show ?case
    by (simp add: SortCompare_def finite_key_def)
qed

lemma js_sort_key:
  "all_finite xs \<Longrightarrow> js_sort (\<lambda>a b. minus_number (snd a) (snd b)) xs = sort_key finite_key xs"
proof (induction xs)
  case Nil
  show ?case by (simp add: js_sort_def)
next
  case (Cons x xs)
  from Cons.prems have tl: "all_finite xs"
    by (simp add: all_finite_def)
  with Cons.IH have e: "js_sort (\<lambda>a b. minus_number (snd a) (snd b)) xs = sort_key finite_key xs"
    by simp
  from Cons.prems have "all_finite (x # sort_key finite_key xs)"
    by (simp add: all_finite_def)
  then have "insert_sorted (\<lambda>a b. minus_number (snd a) (snd b)) x (sort_key finite_key xs)
      = insort_key finite_key x (sort_key finite_key xs)"
    by (rule insert_sorted_key)
  with e show ?case
    by (simp add: js_sort_def)
qed

lemma distances_finite:
  "(\<forall>e \<in> set es. distKm u base e \<noteq> NaN) \<Longrightarrow> all_finite (map (\<lambda>e. (e, distKm u base e)) es)"
  using haversineKm_cases by (fastforce simp: all_finite_def distKm_def)

lemma ranking_sort_key:
  "(\<forall>e \<in> set es. distKm u base e \<noteq> NaN) \<Longrightarrow>
   ranking u base es = sort_key finite_key (map (\<lambda>e. (e, distKm u base e)) es)"
  unfolding ranking_def by (intro js_sort_key distances_finite)

lemma ranking_mset: "mset (ranking u base es) = mset (map (\<lambda>e. (e, distKm u base e)) es)"
  unfolding ranking_def by (rule mset_js_sort)

lemma ranking_set: "set (ranking u base es) = (\<lambda>e. (e, distKm u base e)) ` set es"
  using ranking_mset [of u base es] by (metis set_map set_mset_mset)

lemma ranking_length: "length (ranking u base es) = length es"
  using ranking_mset [of u base es] by (metis length_map size_mset)

lemma ge_finite_key:
  "all_finite rs \<Longrightarrow> a \<in> set rs \<Longrightarrow> b \<in> set rs \<Longrightarrow>
   ge (snd b) (snd a) \<longleftrightarrow> finite_key a \<le> finite_key b"
proof -
  assume "all_finite rs" "a \<in> set rs" "b \<in> set rs"
  then have "\<exists>x. snd a = Finite x" "\<exists>y. snd b = Finite y"
    unfolding all_finite_def by blast+
  then obtain x y where "snd a = Finite x" "snd b = Finite y"
    by blast
  then show ?thesis
    by (simp add: finite_key_def)
qed

lemma length_filter_mset: "mset xs = mset ys \<Longrightarrow> length (filter P xs) = length (filter P ys)"
  by (metis mset_filter size_mset)

lemma ranking_sorted:
  assumes "\<forall>e \<in> set es. distKm u base e \<noteq> NaN"
  shows "sorted_wrt (\<lambda>a b. ge (snd b) (snd a)) (ranking u base es)"
proof -
  have fin: "all_finite (ranking u base es)"
    using distances_finite [OF assms] by (simp add: all_finite_def ranking_set)
  have "sorted (map finite_key (ranking u base es))"
    unfolding ranking_sort_key [OF assms] by (rule sorted_sort_key)
  then have "sorted_wrt (\<lambda>a b. finite_key a \<le> finite_key b) (ranking u base es)"
    by (simp add: sorted_map)
  then show ?thesis
    by (rule sorted_wrt_mono_rel [rotated]) (simp add: ge_finite_key [OF fin])
qed

lemma ranking_stable:
  assumes "\<forall>e \<in> set es. distKm u base e \<noteq> NaN"
  shows "filter (\<lambda>r. snd r = d) (ranking u base es)
    = filter (\<lambda>r. snd r = d) (map (\<lambda>e. (e, distKm u base e)) es)"
proof (cases "\<exists>x. d = Finite x")
  case True
  then obtain x where d: "d = Finite x"
    by blast
  have fin: "all_finite (map (\<lambda>e. (e, distKm u base e)) es)"
    by (rule distances_finite [OF assms])
  have key: "snd r = d \<longleftrightarrow> finite_key r = x" if "r \<in> set (map (\<lambda>e. (e, distKm u base e)) es)" for r
    using fin that by (auto simp: all_finite_def finite_key_def d)
  have "filter (\<lambda>r. snd r = d) (ranking u base es)
      = filter (\<lambda>r. finite_key r = x) (ranking u base es)"
    by (rule filter_cong) (simp_all add: key ranking_set)
  also have "\<dots> = filter (\<lambda>r. finite_key r = x) (map (\<lambda>e. (e, distKm u base e)) es)"
    unfolding ranking_sort_key [OF assms] by (rule sort_key_stable)
  also have "\<dots> = filter (\<lambda>r. snd r = d) (map (\<lambda>e. (e, distKm u base e)) es)"
    by (rule filter_cong) (simp_all add: key)
  finally show ?thesis .
next
  case False
  have fin: "all_finite (map (\<lambda>e. (e, distKm u base e)) es)"
    by (rule distances_finite [OF assms])
  with False have "snd r \<noteq> d" if "r \<in> set (map (\<lambda>e. (e, distKm u base e)) es)" for r
    using that by (auto simp: all_finite_def)
  then have "filter (\<lambda>r. snd r = d) (ranking u base es) = []"
    "filter (\<lambda>r. snd r = d) (map (\<lambda>e. (e, distKm u base e)) es) = []"
    by (simp_all add: filter_empty_conv ranking_set)
  then show ?thesis
    by simp
qed

lemma ranking_low_prefix:
  assumes nan: "\<forall>e \<in> set es. distKm u base e \<noteq> NaN"
    and i: "i < length (ranking u base es)" and z: "snd (ranking u base es ! i) = Finite 0"
  shows "Suc i \<le> length (filter (\<lambda>e. ge (Finite 0) (distKm u base e)) es)"
proof -
  define S where "S = ranking u base es"
  have srt: "sorted_wrt (\<lambda>a b. ge (snd b) (snd a)) S"
    unfolding S_def using nan by (rule ranking_sorted)
  have low: "ge (Finite 0) (snd r)" if r: "r \<in> set (take (Suc i) S)" for r
  proof -
    from r obtain j where j: "j < Suc i" "j < length S" "r = S ! j"
      by (auto simp: in_set_conv_nth)
    show ?thesis
    proof (cases "j = i")
      case True
      with j z show ?thesis by (simp add: S_def)
    next
      case False
      with j have "j < i" by simp
      with srt i have "ge (snd (S ! i)) (snd (S ! j))"
        unfolding S_def by (intro sorted_wrt_nth_less) simp_all
      with j z show ?thesis by (simp add: S_def)
    qed
  qed
  have "Suc i = length (take (Suc i) S)"
    using i by (simp add: S_def)
  also have "\<dots> = length (filter (\<lambda>r. ge (Finite 0) (snd r)) (take (Suc i) S))"
    using low by (simp add: filter_id_conv)
  also have "\<dots> \<le> length (filter (\<lambda>r. ge (Finite 0) (snd r)) S)"
    using prefix_length_le [OF filter_mono_prefix [OF take_is_prefix]] .
  also have "\<dots> = length (filter (\<lambda>r. ge (Finite 0) (snd r)) (map (\<lambda>e. (e, distKm u base e)) es))"
    unfolding S_def by (rule length_filter_mset) (rule ranking_mset)
  also have "\<dots> = length (filter (\<lambda>e. ge (Finite 0) (distKm u base e)) es)"
    by (simp add: filter_map comp_def)
  finally show ?thesis .
qed

text \<open>
  \<open>place i la lo\<close> is an event at latitude \<open>la\<close> and longitude \<open>lo\<close>.
\<close>

definition place :: "string \<Rightarrow> real \<Rightarrow> real \<Rightarrow> feature" where
  "place i la lo = \<lparr>feature_id = i, mag = Some 4, lon = lo, lat = la, depth = 10\<rparr>"

text \<open>
  Claim C6, as stated, fails where it says that a candidate identical to the
  reference is included: the rows are the first ten of the ranking, and when ten
  other candidates at the coordinates of the reference arrive before it, they take
  the ten rows.
\<close>

definition swarm :: "feature list" where
  "swarm = map (\<lambda>i. place i 0 0) [''q0'', ''q1'', ''q2'', ''q3'', ''q4'', ''q5'', ''q6'', ''q7'', ''q8'', ''q9'']"

theorem reference_cut_by_limit:
  "insights_rows exact (place ''ref'' 0 0) (swarm @ [place ''ref'' 0 0])
     = map (\<lambda>e. (e, Finite 0)) swarm
   \<and> place ''ref'' 0 0 \<in> set (swarm @ [place ''ref'' 0 0])
   \<and> place ''ref'' 0 0 \<notin> fst ` set (insights_rows exact (place ''ref'' 0 0) (swarm @ [place ''ref'' 0 0]))
   \<and> distKm exact (place ''ref'' 0 0) (place ''ref'' 0 0) = Finite 0
   \<and> length (swarm @ [place ''ref'' 0 0]) = 11"
proof -
  have d: "distKm exact (place ''ref'' 0 0) (place i 0 0) = Finite 0" for i
    by (simp add: distKm_def place_def haversineKm_same exact_at_zero_exact)
  have rows: "insights_rows exact (place ''ref'' 0 0) (swarm @ [place ''ref'' 0 0])
     = map (\<lambda>e. (e, Finite 0)) swarm"
    by (simp add: insights_rows_def ranking_def js_sort_def swarm_def d SortCompare_def)
  show ?thesis
    unfolding rows by (simp add: d) (simp add: swarm_def place_def image_iff)
qed

text \<open>
  Claim C6, amended. There are as many rows as there are candidates, up to ten; the
  ranking is a permutation of the candidates, each with the distance that
  \<^verbatim>\<open>haversineKm\<close> computes from the base event, and the rows are its first ten. When
  no computed distance is \<^verbatim>\<open>NaN\<close>: the rows are in ascending order of distance, no
  candidate left out is nearer than a row, and the rows at any one distance are in
  the order in which their events arrived. A candidate at the coordinates of the base
  event has distance 0, and no step removes the base event: when it is a candidate it
  is among the rows unless more than ten candidates have a distance of at most 0.
  Without rounding the distance is that of the haversine formula on a sphere of
  radius 6371: a quarter of the circumference for 90 degrees along the equator.
\<close>

theorem nearest_neighbour_ranking:
  "length (insights_rows u base es) = min 10 (length es) \<and>
   mset (ranking u base es)
     = mset (map (\<lambda>e. (e, haversineKm u (lat base) (lon base) (lat e) (lon e))) es) \<and>
   insights_rows u base es = take 10 (ranking u base es) \<and>
   nearest_from_api u base es = map fst (insights_rows u base es) \<and>
   (\<forall>r \<in> set (insights_rows u base es).
      fst r \<in> set es \<and>
      snd r = haversineKm u (lat base) (lon base) (lat (fst r)) (lon (fst r))) \<and>
   ((\<forall>e \<in> set es. distKm u base e \<noteq> NaN) \<longrightarrow>
      sorted_wrt (\<lambda>a b. ge (snd b) (snd a)) (insights_rows u base es) \<and>
      (\<forall>r \<in> set (insights_rows u base es). \<forall>q \<in> set (drop 10 (ranking u base es)).
         ge (snd q) (snd r)) \<and>
      (\<forall>d. prefix (filter (\<lambda>r. snd r = d) (insights_rows u base es))
             (filter (\<lambda>r. snd r = d) (map (\<lambda>e. (e, distKm u base e)) es)))) \<and>
   (exact_at_zero u \<and> lat e = lat base \<and> lon e = lon base \<longrightarrow> distKm u base e = Finite 0) \<and>
   (exact_at_zero u \<and> base \<in> set es \<and> (\<forall>e \<in> set es. distKm u base e \<noteq> NaN) \<and>
    length (filter (\<lambda>e. ge (Finite 0) (distKm u base e)) es) \<le> 10 \<longrightarrow>
      (base, Finite 0) \<in> set (insights_rows u base es)) \<and>
   haversineKm exact 0 0 0 90 = Finite (6371 * pi / 2)"
proof (intro conjI ballI impI allI)
  show "length (insights_rows u base es) = min 10 (length es)"
    by (simp add: insights_rows_def ranking_length min.commute)
  show "mset (ranking u base es)
     = mset (map (\<lambda>e. (e, haversineKm u (lat base) (lon base) (lat e) (lon e))) es)"
    using ranking_mset [of u base es] by (simp add: distKm_def)
  show "insights_rows u base es = take 10 (ranking u base es)"
    by (simp add: insights_rows_def)
  show "nearest_from_api u base es = map fst (insights_rows u base es)"
    by (simp add: nearest_from_api_def insights_rows_def)
  show "fst r \<in> set es" "snd r = haversineKm u (lat base) (lon base) (lat (fst r)) (lon (fst r))"
    if "r \<in> set (insights_rows u base es)" for r
  proof -
    from that have "r \<in> set (ranking u base es)"
      unfolding insights_rows_def by (rule in_set_takeD)
    then show "fst r \<in> set es"
      "snd r = haversineKm u (lat base) (lon base) (lat (fst r)) (lon (fst r))"
      unfolding ranking_set by (auto simp: distKm_def)
  qed
  show "haversineKm exact 0 0 0 90 = Finite (6371 * pi / 2)"
    by (rule quarter_turn)
next
  assume nan: "\<forall>e \<in> set es. distKm u base e \<noteq> NaN"
  have srt: "sorted_wrt (\<lambda>a b. ge (snd b) (snd a)) (ranking u base es)"
    using nan by (rule ranking_sorted)
  then have "sorted_wrt (\<lambda>a b. ge (snd b) (snd a))
      (take 10 (ranking u base es) @ drop 10 (ranking u base es))"
    by simp
  then have parts: "sorted_wrt (\<lambda>a b. ge (snd b) (snd a)) (take 10 (ranking u base es))"
    "\<forall>r \<in> set (take 10 (ranking u base es)). \<forall>q \<in> set (drop 10 (ranking u base es)).
       ge (snd q) (snd r)"
    unfolding sorted_wrt_append by simp_all
  show "sorted_wrt (\<lambda>a b. ge (snd b) (snd a)) (insights_rows u base es)"
    using parts(1) by (simp add: insights_rows_def)
  show "ge (snd q) (snd r)"
    if "r \<in> set (insights_rows u base es)" "q \<in> set (drop 10 (ranking u base es))" for r q
    using parts(2) that by (simp add: insights_rows_def)
  show "prefix (filter (\<lambda>r. snd r = d) (insights_rows u base es))
      (filter (\<lambda>r. snd r = d) (map (\<lambda>e. (e, distKm u base e)) es))" for d
    unfolding insights_rows_def ranking_stable [OF nan, symmetric]
    by (intro filter_mono_prefix take_is_prefix)
next
  assume "exact_at_zero u \<and> lat e = lat base \<and> lon e = lon base"
  then show "distKm u base e = Finite 0"
    by (simp add: distKm_def haversineKm_same)
next
  assume a: "exact_at_zero u \<and> base \<in> set es \<and> (\<forall>e \<in> set es. distKm u base e \<noteq> NaN) \<and>
    length (filter (\<lambda>e. ge (Finite 0) (distKm u base e)) es) \<le> 10"
  then have self: "distKm u base base = Finite 0"
    by (simp add: distKm_def haversineKm_same)
  with a have "(base, Finite 0) \<in> set (ranking u base es)"
    unfolding ranking_set by force
  then obtain i where i: "i < length (ranking u base es)" "ranking u base es ! i = (base, Finite 0)"
    by (auto simp: in_set_conv_nth)
  with a have "Suc i \<le> length (filter (\<lambda>e. ge (Finite 0) (distKm u base e)) es)"
    by (intro ranking_low_prefix) simp_all
  with a have "i < 10"
    by simp
  with i show "(base, Finite 0) \<in> set (insights_rows u base es)"
    unfolding insights_rows_def by (auto simp: in_set_conv_nth intro!: exI [of _ i])
qed

theorem nearest_neighbour_ranking_witness:
  "insights_rows exact (place ''ref'' 0 0) [place ''far'' 0 180, place ''mid'' 0 90, place ''ref'' 0 0]
     = [(place ''ref'' 0 0, Finite 0), (place ''mid'' 0 90, Finite (6371 * pi / 2)),
        (place ''far'' 0 180, Finite (6371 * pi))]
   \<and> nearest_from_api exact (place ''ref'' 0 0)
       [place ''far'' 0 180, place ''mid'' 0 90, place ''ref'' 0 0]
     = [place ''ref'' 0 0, place ''mid'' 0 90, place ''far'' 0 180]
   \<and> insights_rows exact (place ''ref'' 0 0) [place ''twin'' 0 0, place ''ref'' 0 0]
     = [(place ''twin'' 0 0, Finite 0), (place ''ref'' 0 0, Finite 0)]
   \<and> exact_at_zero exact
   \<and> lt (Finite 0) (Finite (6371 * pi / 2)) \<and> lt (Finite (6371 * pi / 2)) (Finite (6371 * pi))"
proof -
  have d: "distKm exact (place ''ref'' 0 0) (place ''far'' 0 180) = Finite (6371 * pi)"
    "distKm exact (place ''ref'' 0 0) (place ''mid'' 0 90) = Finite (6371 * pi / 2)"
    "distKm exact (place ''ref'' 0 0) (place i 0 0) = Finite 0" for i
    by (simp_all add: distKm_def place_def half_turn quarter_turn haversineKm_same exact_at_zero_exact)
  have rows: "insights_rows exact (place ''ref'' 0 0)
      [place ''far'' 0 180, place ''mid'' 0 90, place ''ref'' 0 0]
     = [(place ''ref'' 0 0, Finite 0), (place ''mid'' 0 90, Finite (6371 * pi / 2)),
        (place ''far'' 0 180, Finite (6371 * pi))]"
    "insights_rows exact (place ''ref'' 0 0) [place ''twin'' 0 0, place ''ref'' 0 0]
     = [(place ''twin'' 0 0, Finite 0), (place ''ref'' 0 0, Finite 0)]"
    by (simp_all add: insights_rows_def ranking_def js_sort_def d SortCompare_def not_le)
  have nan: "\<forall>e \<in> set [place ''far'' 0 180, place ''mid'' 0 90, place ''ref'' 0 0].
      distKm exact (place ''ref'' 0 0) e \<noteq> NaN"
    by (simp add: d)
  from nearest_neighbour_ranking [of exact "place ''ref'' 0 0"
      "[place ''far'' 0 180, place ''mid'' 0 90, place ''ref'' 0 0]" "place ''ref'' 0 0"] nan
  have srt: "sorted_wrt (\<lambda>a b. ge (snd b) (snd a)) (insights_rows exact (place ''ref'' 0 0)
      [place ''far'' 0 180, place ''mid'' 0 90, place ''ref'' 0 0])"
    by blast
  have api: "nearest_from_api exact (place ''ref'' 0 0)
       [place ''far'' 0 180, place ''mid'' 0 90, place ''ref'' 0 0]
     = map fst (insights_rows exact (place ''ref'' 0 0)
         [place ''far'' 0 180, place ''mid'' 0 90, place ''ref'' 0 0])"
    by (simp add: nearest_from_api_def insights_rows_def)
  from srt show ?thesis
    unfolding api rows using exact_at_zero_exact by simp
qed

section \<open>The histogram of magnitudes\<close>

text \<open>
  \<^verbatim>\<open>byMagnitudeBucket\<close> of the chart component, which fetches its own events and
  reads their \<^verbatim>\<open>properties.mag\<close> only. That value is what the parsed response holds
  under the key: a number, \<^verbatim>\<open>null\<close>, or nothing at all (\<^verbatim>\<open>undefined\<close>). The
  comparisons with the bounds of a bucket convert it to a number: \<^verbatim>\<open>null\<close> to 0 and
  \<^verbatim>\<open>undefined\<close> to \<^verbatim>\<open>NaN\<close>, which no comparison holds of. The bounds of a bucket are
  numbers or an infinity; the counts are a dictionary from the keys of the buckets,
  where a key that is missing reads as \<open>None\<close>.
\<close>

datatype mag_value = Number number | Null | Undefined

record chart_event =
  properties_mag :: mag_value

definition to_number :: "mag_value \<Rightarrow> number" where
  "to_number v = (case v of Number n \<Rightarrow> n | Null \<Rightarrow> Finite 0 | Undefined \<Rightarrow> NaN)"

record bucket =
  key :: string
  label :: string
  min_b :: number
  max_b :: number

definition buckets :: "bucket list" where
  "buckets =
     [\<lparr>key = ''<2'', label = ''<2.0'', min_b = NegInfinity, max_b = Finite 2\<rparr>,
      \<lparr>key = ''2-3.9'', label = ''2.0-3.9'', min_b = Finite 2, max_b = Finite 4\<rparr>,
      \<lparr>key = ''4-5.9'', label = ''4.0-5.9'', min_b = Finite 4, max_b = Finite 6\<rparr>,
      \<lparr>key = ''6+'', label = ''6.0+'', min_b = Finite 6, max_b = Infinity\<rparr>]"

definition in_bucket :: "mag_value \<Rightarrow> bucket \<Rightarrow> bool" where
  "in_bucket m b = (ge (to_number m) (min_b b) \<and> lt (to_number m) (max_b b))"

fun count_first :: "mag_value \<Rightarrow> bucket list \<Rightarrow> (string \<rightharpoonup> nat) \<Rightarrow> (string \<rightharpoonup> nat)" where
  "count_first m [] counts = counts"
| "count_first m (b # bs) counts =
     (if in_bucket m b then counts(key b := map_option Suc (counts (key b)))
      else count_first m bs counts)"

definition byMagnitudeBucket :: "chart_event list \<Rightarrow> (string \<times> nat option) list" where
  "byMagnitudeBucket data =
     (let counts0 = fold (\<lambda>b counts. counts(key b \<mapsto> 0)) buckets Map.empty;
          counts = fold (\<lambda>f counts. count_first (properties_mag f) buckets counts) data counts0
      in map (\<lambda>b. (label b, counts (key b))) buckets)"

text \<open>
  \<open>band\<close> is the band of a magnitude, if it has one: the magnitudes that convert to
  \<^verbatim>\<open>NaN\<close> or to the positive infinity have none. \<open>in_band i data\<close> is the number of
  events of \<open>data\<close> within the bounds of the bucket number \<open>i\<close>, and \<open>banded\<close> says of
  an event that its magnitude converts to a number below the positive infinity.
\<close>

definition band :: "mag_value \<Rightarrow> nat option" where
  "band m =
     (case to_number m of
        NaN \<Rightarrow> None
      | Infinity \<Rightarrow> None
      | NegInfinity \<Rightarrow> Some 0
      | Finite x \<Rightarrow> Some (if x < 2 then 0 else if x < 4 then 1 else if x < 6 then 2 else 3))"

definition tally :: "nat \<Rightarrow> nat \<Rightarrow> nat \<Rightarrow> nat \<Rightarrow> (string \<rightharpoonup> nat)" where
  "tally a b c d = [''<2'' \<mapsto> a, ''2-3.9'' \<mapsto> b, ''4-5.9'' \<mapsto> c, ''6+'' \<mapsto> d]"

definition in_band :: "nat \<Rightarrow> chart_event list \<Rightarrow> nat" where
  "in_band i data = length (filter (\<lambda>f. in_bucket (properties_mag f) (buckets ! i)) data)"

definition banded :: "chart_event \<Rightarrow> bool" where
  "banded f = lt (to_number (properties_mag f)) Infinity"

lemma in_bucket_band: "i < 4 \<Longrightarrow> in_bucket m (buckets ! i) \<longleftrightarrow> band m = Some i"
proof -
  assume "i < 4"
  then have "i = 0 \<or> i = 1 \<or> i = 2 \<or> i = 3"
    by arith
  then show ?thesis
    by (elim disjE) (auto simp: buckets_def in_bucket_def band_def split: number.splits)
qed

lemma band_cases: "band m = None \<or> band m = Some 0 \<or> band m = Some 1 \<or> band m = Some 2 \<or> band m = Some 3"
  by (simp add: band_def split: number.splits)

lemma band_banded: "band (properties_mag f) \<noteq> None \<longleftrightarrow> banded f"
  by (simp add: band_def banded_def split: number.splits)

lemma buckets_matching:
  "filter (in_bucket m) buckets = (case band m of None \<Rightarrow> [] | Some i \<Rightarrow> [buckets ! i])"
  using band_cases [of m]
  by (elim disjE) (simp_all add: filter_eq_Cons_iff in_bucket_band [symmetric, of _ m] buckets_def
      in_bucket_def to_number_def band_def split: number.splits mag_value.splits if_splits)

lemma count_first_tally:
  "count_first m buckets (tally a b c d) =
     tally (a + (if band m = Some 0 then 1 else 0)) (b + (if band m = Some 1 then 1 else 0))
           (c + (if band m = Some 2 then 1 else 0)) (d + (if band m = Some 3 then 1 else 0))"
  using band_cases [of m]
  by (elim disjE)
    (simp_all add: in_bucket_band [of 0 m, simplified] buckets_def tally_def fun_eq_iff
      in_bucket_def band_def split: number.splits if_splits)

lemma fold_tally:
  "fold (\<lambda>f counts. count_first (properties_mag f) buckets counts) data (tally a b c d) =
     tally (a + length (filter (\<lambda>f. band (properties_mag f) = Some 0) data))
           (b + length (filter (\<lambda>f. band (properties_mag f) = Some 1) data))
           (c + length (filter (\<lambda>f. band (properties_mag f) = Some 2) data))
           (d + length (filter (\<lambda>f. band (properties_mag f) = Some 3) data))"
proof (induction data arbitrary: a b c d)
  case Nil
  show ?case by simp
next
  case (Cons f data)
  show ?case
    by (simp add: count_first_tally Cons.IH)
qed

lemma in_band_filter:
  "i < 4 \<Longrightarrow> in_band i data = length (filter (\<lambda>f. band (properties_mag f) = Some i) data)"
  by (simp add: in_band_def in_bucket_band)

lemma bands_partition:
  "length (filter (\<lambda>f. band (properties_mag f) = Some 0) data)
   + length (filter (\<lambda>f. band (properties_mag f) = Some 1) data)
   + length (filter (\<lambda>f. band (properties_mag f) = Some 2) data)
   + length (filter (\<lambda>f. band (properties_mag f) = Some 3) data) = length (filter banded data)"
proof (induction data)
  case Nil
  show ?case by simp
next
  case (Cons f data)
  from band_cases [of "properties_mag f"] band_banded [of f] Cons show ?case
    by (elim disjE) simp_all
qed

text \<open>
  Claim C8, as stated, fails at the sum of the counts: an event whose magnitude is
  missing is in no band, since no comparison holds of \<^verbatim>\<open>undefined\<close>, and is not
  counted. Of two events, one of them without a magnitude, the counts add up to one.
\<close>

theorem missing_magnitude_is_not_counted:
  "byMagnitudeBucket [\<lparr>properties_mag = Undefined\<rparr>, \<lparr>properties_mag = Number (Finite 3)\<rparr>]
     = [(''<2.0'', Some 0), (''2.0-3.9'', Some 1), (''4.0-5.9'', Some 0), (''6.0+'', Some 0)]
   \<and> length [\<lparr>properties_mag = Undefined\<rparr>, \<lparr>properties_mag = Number (Finite 3)\<rparr>] = 2
   \<and> filter (in_bucket Undefined) buckets = []"
  by (simp add: byMagnitudeBucket_def buckets_def in_bucket_def to_number_def)

text \<open>
  Claim C8, amended. The output has the four buckets, in their fixed order, whatever
  the input, each with the number of events whose magnitude is within its bounds. A
  magnitude that is a number below the positive infinity, or \<^verbatim>\<open>null\<close>, which compares
  as 0, is within the bounds of exactly one bucket; a magnitude that is missing,
  \<^verbatim>\<open>NaN\<close> or the positive infinity is within the bounds of none. An event is counted in
  the first bucket that matches, and in none when none matches. So the four counts add
  up to the number of events that have a magnitude of the first kind, which is the
  number of events when all of them do.
\<close>

theorem magnitude_buckets:
  "byMagnitudeBucket data =
     [(''<2.0'', Some (in_band 0 data)), (''2.0-3.9'', Some (in_band 1 data)),
      (''4.0-5.9'', Some (in_band 2 data)), (''6.0+'', Some (in_band 3 data))] \<and>
   length (byMagnitudeBucket data) = 4 \<and>
   in_band 0 data + in_band 1 data + in_band 2 data + in_band 3 data
     = length (filter (\<lambda>f. lt (to_number (properties_mag f)) Infinity) data) \<and>
   ((\<forall>f \<in> set data. lt (to_number (properties_mag f)) Infinity) \<longrightarrow>
      in_band 0 data + in_band 1 data + in_band 2 data + in_band 3 data = length data) \<and>
   (lt (to_number m) Infinity \<longrightarrow> length (filter (in_bucket m) buckets) = 1) \<and>
   (\<not> lt (to_number m) Infinity \<longrightarrow> filter (in_bucket m) buckets = []) \<and>
   count_first m buckets counts =
     (case find (in_bucket m) buckets of
        None \<Rightarrow> counts
      | Some b \<Rightarrow> counts(key b := map_option Suc (counts (key b)))) \<and>
   to_number Null = Finite 0 \<and> to_number Undefined = NaN"
proof (intro conjI impI)
  have init: "fold (\<lambda>b counts. counts(key b \<mapsto> 0)) buckets Map.empty = tally 0 0 0 0"
    by (auto simp: buckets_def tally_def fun_eq_iff)
  show eq: "byMagnitudeBucket data =
     [(''<2.0'', Some (in_band 0 data)), (''2.0-3.9'', Some (in_band 1 data)),
      (''4.0-5.9'', Some (in_band 2 data)), (''6.0+'', Some (in_band 3 data))]"
    unfolding byMagnitudeBucket_def Let_def init fold_tally
    by (simp add: in_band_filter) (simp add: buckets_def tally_def)
  then show "length (byMagnitudeBucket data) = 4"
    by simp
  have b: "banded = (\<lambda>f. lt (to_number (properties_mag f)) Infinity)"
    by (simp add: fun_eq_iff banded_def)
  show sum: "in_band 0 data + in_band 1 data + in_band 2 data + in_band 3 data
      = length (filter (\<lambda>f. lt (to_number (properties_mag f)) Infinity) data)"
    using bands_partition [of data] by (simp add: in_band_filter b)
  show "in_band 0 data + in_band 1 data + in_band 2 data + in_band 3 data = length data"
    if "\<forall>f \<in> set data. lt (to_number (properties_mag f)) Infinity"
    unfolding sum using that by simp
  have none: "band m = None \<longleftrightarrow> \<not> lt (to_number m) Infinity"
    by (simp add: band_def split: number.splits)
  show "length (filter (in_bucket m) buckets) = 1" if "lt (to_number m) Infinity"
    using that none by (auto simp: buckets_matching split: option.splits)
  show "filter (in_bucket m) buckets = []" if "\<not> lt (to_number m) Infinity"
    using that none by (simp add: buckets_matching)
  show "count_first m buckets counts =
     (case find (in_bucket m) buckets of
        None \<Rightarrow> counts
      | Some b \<Rightarrow> counts(key b := map_option Suc (counts (key b))))"
    by (simp add: buckets_def)
  show "to_number Null = Finite 0" "to_number Undefined = NaN"
    by (simp_all add: to_number_def)
qed

theorem magnitude_buckets_witness:
  "byMagnitudeBucket [\<lparr>properties_mag = Number (Finite 1.5)\<rparr>, \<lparr>properties_mag = Number (Finite 3)\<rparr>,
      \<lparr>properties_mag = Number (Finite 5.5)\<rparr>, \<lparr>properties_mag = Number (Finite 6.2)\<rparr>,
      \<lparr>properties_mag = Null\<rparr>]
     = [(''<2.0'', Some 2), (''2.0-3.9'', Some 1), (''4.0-5.9'', Some 1), (''6.0+'', Some 1)]
   \<and> list_all (\<lambda>f. lt (to_number (properties_mag f)) Infinity)
       [\<lparr>properties_mag = Number (Finite 1.5)\<rparr>, \<lparr>properties_mag = Number (Finite 3)\<rparr>,
        \<lparr>properties_mag = Number (Finite 5.5)\<rparr>, \<lparr>properties_mag = Number (Finite 6.2)\<rparr>,
        \<lparr>properties_mag = Null\<rparr>]
   \<and> filter (in_bucket (Number (Finite 6.2))) buckets = [buckets ! 3]
   \<and> filter (in_bucket (Number Infinity)) buckets = []"
  using magnitude_buckets [of "[\<lparr>properties_mag = Number (Finite 1.5)\<rparr>,
      \<lparr>properties_mag = Number (Finite 3)\<rparr>, \<lparr>properties_mag = Number (Finite 5.5)\<rparr>,
      \<lparr>properties_mag = Number (Finite 6.2)\<rparr>, \<lparr>properties_mag = Null\<rparr>]" "Number (Finite 6.2)"]
    magnitude_buckets [of "[]" "Number Infinity"]
  by (simp add: in_band_def in_bucket_def buckets_def to_number_def)

end
